theory Spec2Isabelle
  imports Main "HOL-Library.AList"
begin

section \<open>Host platform\<close>

text \<open>
  The client runs on one JavaScript control thread. Every function of the source is
  modelled as a function on an explicit state: the \<open>world\<close> (what the browser holds:
  live timers, the audio elements of the document, the requests sent) and the object
  the function belongs to. Console output is not part of the state: a \<open>catch\<close> block
  that only logs leaves the state as the \<open>try\<close> block left it. A value thrown by the
  host is an \<open>exn\<close>; the result of a \<open>fetch\<close> is a \<open>response\<close>, given to the model as
  an input. An \<open>async\<close> function returns the exception that escapes it, if any, with
  the state it leaves.
\<close>

datatype exn = Thrown string

text \<open>
  \<open>NetworkError\<close>: \<open>fetch\<close> (or reading the body) threw; \<open>NotOk\<close>: a response whose
  \<open>ok\<close> flag is false; \<open>Ok b\<close>: a successful response with parsed body \<open>b\<close>.
\<close>

datatype 'a response = NetworkError | NotOk | Ok 'a

datatype track_kind = AudioTrack | VideoTrack

record track =
  kind :: track_kind
  enabled :: bool

datatype sdp_kind = OfferKind | AnswerKind

datatype sdp = Sdp sdp_kind string

record payload =
  sdp :: "sdp option"
  candidate :: "string option"

text \<open>An inbound envelope \<open>{ from, type, data }\<close> as \<open>GET /webrtc/signals\<close> returns it.\<close>

record signal =
  sig_from :: string
  sig_type :: string
  sig_data :: payload

text \<open>The body of \<open>POST /webrtc/signal\<close>.\<close>

record envelope =
  fromSessionId :: string
  toSessionId :: string
  env_type :: string
  env_data :: payload

datatype action = Start | Skip | Finish

text \<open>
  A live timer is the callback that \<open>setInterval\<close> or \<open>setTimeout\<close> registered, with
  the values its closure captured.
\<close>

datatype timer =
    SignalPoll
  | QueuePoll
  | Countdown int
  | AutoSkip bool "string option"
  | Position2Countdown
  | Position2Timeout "string option"

record world =
  timers :: "(nat \<times> timer) list"
  next_handle :: nat
  body :: "string list"
  fetched :: "string list"
  signals_sent :: "envelope list"
  actions_sent :: "(string \<times> action) list"
  closed_peers :: "string list"
  stopped_tracks :: "track list"
  toasts :: "string list"
  notifications :: nat
  notification_granted :: bool
  localStorage :: "(string \<times> string) list"

definition setTimer :: "timer \<Rightarrow> world \<Rightarrow> nat \<times> world" where
  "setTimer t w =
     (next_handle w,
      w\<lparr>timers := timers w @ [(next_handle w, t)], next_handle := Suc (next_handle w)\<rparr>)"

definition clearTimer :: "nat \<Rightarrow> world \<Rightarrow> world" where
  "clearTimer h w = w\<lparr>timers := filter (\<lambda>ht. fst ht \<noteq> h) (timers w)\<rparr>"

text \<open>
  \<open>RTCPeerConnection\<close> belongs to the browser, not to the repository: its operations
  are parameters of the model. Each one either returns the connection as it is after
  the call or throws; \<open>signalingState\<close> and \<open>remoteDescription\<close> are the attributes of
  the same names.
\<close>

datatype signaling_state = Stable | HaveLocalOffer | HaveRemoteOffer | Closed

record 'pc platform =
  newRTCPeerConnection :: "exn + 'pc"
  addTrack :: "'pc \<Rightarrow> track \<Rightarrow> exn + 'pc"
  createOffer :: "'pc \<Rightarrow> exn + sdp"
  createAnswer :: "'pc \<Rightarrow> exn + sdp"
  setLocalDescription :: "'pc \<Rightarrow> sdp \<Rightarrow> exn + 'pc"
  setRemoteDescription :: "'pc \<Rightarrow> sdp \<Rightarrow> exn + 'pc"
  addIceCandidate :: "'pc \<Rightarrow> string \<Rightarrow> exn + 'pc"
  signalingState :: "'pc \<Rightarrow> signaling_state"
  remoteDescription :: "'pc \<Rightarrow> sdp option"

text \<open>What \<open>navigator.mediaDevices\<close> offers on this host.\<close>

record host =
  hasMediaDevices :: bool
  getUserMedia :: "exn + track list"

section \<open>AudioManager\<close>

record 'pc audio_manager =
  sessionId :: string
  subGroup :: string
  apiUrl :: string
  localStream :: "track list option"
  peerConnections :: "(string \<times> 'pc) list"
  isMuted :: bool
  isInitialized :: bool
  pollingInterval :: "nat option"

definition new_AudioManager :: "string \<Rightarrow> string \<Rightarrow> string \<Rightarrow> 'pc audio_manager" where
  "new_AudioManager sid sg url =
     \<lparr>sessionId = sid, subGroup = sg, apiUrl = url, localStream = None,
      peerConnections = [], isMuted = True, isInitialized = False,
      pollingInterval = None\<rparr>"

text \<open>
  \<open>this.peerConnections\<close> is a plain object. Reading \<open>this.peerConnections[id]\<close> yields
  the connection stored under \<open>id\<close>; for an id it does not hold, what \<open>Object.prototype\<close>
  defines under that name, a function or an object, which is truthy and is no
  connection; and \<open>undefined\<close> otherwise. No connection is ever stored under an
  inherited name, since every store follows a read that found nothing.
\<close>

definition Object_prototype :: "string list" where
  "Object_prototype =
     [''constructor'', ''__defineGetter__'', ''__defineSetter__'', ''hasOwnProperty'',
      ''__lookupGetter__'', ''__lookupSetter__'', ''isPrototypeOf'', ''propertyIsEnumerable'',
      ''toString'', ''valueOf'', ''__proto__'', ''toLocaleString'']"

datatype 'pc property = Connection 'pc | Inherited | Undefined

definition get_pc :: "'pc audio_manager \<Rightarrow> string \<Rightarrow> 'pc property" where
  "get_pc am peerId =
     (case map_of (peerConnections am) peerId of
        Some pc \<Rightarrow> Connection pc
      | None \<Rightarrow> if peerId \<in> set Object_prototype then Inherited else Undefined)"

text \<open>\<open>this.peerConnections[peerId] = pc\<close> on the connections object.\<close>

definition store_pc :: "string \<Rightarrow> 'pc \<Rightarrow> 'pc audio_manager \<Rightarrow> 'pc audio_manager" where
  "store_pc peerId pc am = am\<lparr>peerConnections := AList.update peerId pc (peerConnections am)\<rparr>"

definition sendSignal :: "string \<Rightarrow> string \<Rightarrow> payload \<Rightarrow> world \<times> 'pc audio_manager \<Rightarrow> world" where
  "sendSignal toId ty d st =
     (case st of (w, am) \<Rightarrow>
        w\<lparr>signals_sent := signals_sent w @
             [\<lparr>fromSessionId = sessionId am, toSessionId = toId, env_type = ty, env_data = d\<rparr>]\<rparr>)"

text \<open>\<open>localStream.getTracks().forEach(track => pc.addTrack(track, localStream))\<close>:
  stops at the first call that throws, the connection keeping the tracks added so far.\<close>

fun addTracks :: "'pc platform \<Rightarrow> track list \<Rightarrow> 'pc \<Rightarrow> exn option \<times> 'pc" where
  "addTracks pf [] pc = (None, pc)"
| "addTracks pf (t # ts) pc =
     (case addTrack pf pc t of
        Inl e \<Rightarrow> (Some e, pc)
      | Inr pc' \<Rightarrow> addTracks pf ts pc')"

definition local_tracks :: "'pc audio_manager \<Rightarrow> track list" where
  "local_tracks am = (case localStream am of None \<Rightarrow> [] | Some ts \<Rightarrow> ts)"

text \<open>The \<open>try\<close> block of \<open>createPeerConnection\<close>: the exception it ends with, if any,
  and the state at that point.\<close>

definition createPeerConnection_try ::
  "'pc platform \<Rightarrow> string \<Rightarrow> world \<times> 'pc audio_manager \<Rightarrow> exn option \<times> world \<times> 'pc audio_manager" where
  "createPeerConnection_try pf peerId st =
     (case st of (w, am) \<Rightarrow>
      (case newRTCPeerConnection pf of
         Inl e \<Rightarrow> (Some e, w, am)
       | Inr pc \<Rightarrow>
          (case addTracks pf (local_tracks am) pc of
             (Some e, pc1) \<Rightarrow> (Some e, w, store_pc peerId pc1 am)
           | (None, pc1) \<Rightarrow>
              (case createOffer pf pc1 of
                 Inl e \<Rightarrow> (Some e, w, store_pc peerId pc1 am)
               | Inr offer \<Rightarrow>
                  (case setLocalDescription pf pc1 offer of
                     Inl e \<Rightarrow> (Some e, w, store_pc peerId pc1 am)
                   | Inr pc2 \<Rightarrow>
                      (None,
                       sendSignal peerId ''offer'' \<lparr>sdp = Some offer, candidate = None\<rparr>
                         (w, store_pc peerId pc2 am),
                       store_pc peerId pc2 am))))))"

definition createPeerConnection ::
  "'pc platform \<Rightarrow> string \<Rightarrow> world \<times> 'pc audio_manager \<Rightarrow> exn option \<times> world \<times> 'pc audio_manager" where
  "createPeerConnection pf peerId st =
     (case createPeerConnection_try pf peerId st of
        (None, w, am) \<Rightarrow> (None, w, am)
      | (Some e, w, am) \<Rightarrow> (None, w, am))"




definition store_each :: "string list \<Rightarrow> 'pc \<Rightarrow> 'pc audio_manager \<Rightarrow> 'pc audio_manager" where
  "store_each ps pc am = fold (\<lambda>p. store_pc p pc) ps am"

text \<open>The handlers \<open>pc.ontrack\<close> and \<open>pc.onicecandidate\<close> registered for peer \<open>peerId\<close>.\<close>

definition ontrack :: "string \<Rightarrow> world \<times> 'pc audio_manager \<Rightarrow> world \<times> 'pc audio_manager" where
  "ontrack peerId st = (case st of (w, am) \<Rightarrow> (w\<lparr>body := body w @ [''audio-'' @ peerId]\<rparr>, am))"

definition onicecandidate ::
  "string \<Rightarrow> string option \<Rightarrow> world \<times> 'pc audio_manager \<Rightarrow> world \<times> 'pc audio_manager" where
  "onicecandidate peerId c st =
     (case c of
        None \<Rightarrow> st
      | Some x \<Rightarrow> (sendSignal peerId ''ice-candidate'' \<lparr>sdp = None, candidate = Some x\<rparr> st, snd st))"

text \<open>\<open>new RTCSessionDescription(data.sdp)\<close> throws a \<open>TypeError\<close> when the payload
  carries no description.\<close>

definition newRTCSessionDescription :: "payload \<Rightarrow> exn + sdp" where
  "newRTCSessionDescription d =
     (case sdp d of None \<Rightarrow> Inl (Thrown ''TypeError'') | Some x \<Rightarrow> Inr x)"

text \<open>The part of the offer branch after the connection has been found or created.\<close>

definition answer_offer ::
  "'pc platform \<Rightarrow> string \<Rightarrow> payload \<Rightarrow> 'pc \<Rightarrow> world \<times> 'pc audio_manager \<Rightarrow>
     exn option \<times> world \<times> 'pc audio_manager" where
  "answer_offer pf sender d pc st =
     (case st of (w, am) \<Rightarrow>
      (case newRTCSessionDescription d of
         Inl e \<Rightarrow> (Some e, w, am)
       | Inr remote \<Rightarrow>
          (case setRemoteDescription pf pc remote of
             Inl e \<Rightarrow> (Some e, w, am)
           | Inr pc1 \<Rightarrow>
              (case createAnswer pf pc1 of
                 Inl e \<Rightarrow> (Some e, w, store_pc sender pc1 am)
               | Inr answer \<Rightarrow>
                  (case setLocalDescription pf pc1 answer of
                     Inl e \<Rightarrow> (Some e, w, store_pc sender pc1 am)
                   | Inr pc2 \<Rightarrow>
                      (None,
                       sendSignal sender ''answer'' \<lparr>sdp = Some answer, candidate = None\<rparr>
                         (w, store_pc sender pc2 am),
                       store_pc sender pc2 am))))))"

text \<open>
  The \<open>try\<close> block of \<open>handleSignal\<close>. Where the read of the connections object
  yields an inherited value, the method then called on it does not exist and the call
  throws a \<open>TypeError\<close>.
\<close>

definition handleSignal_try ::
  "'pc platform \<Rightarrow> signal \<Rightarrow> world \<times> 'pc audio_manager \<Rightarrow> exn option \<times> world \<times> 'pc audio_manager" where
  "handleSignal_try pf s st =
     (case st of (w, am) \<Rightarrow>
      (if sig_type s = ''offer'' then
         (case get_pc am (sig_from s) of
            Connection pc \<Rightarrow> answer_offer pf (sig_from s) (sig_data s) pc (w, am)
          | Inherited \<Rightarrow> (Some (Thrown ''TypeError''), w, am)
          | Undefined \<Rightarrow>
             (case newRTCPeerConnection pf of
                Inl e \<Rightarrow> (Some e, w, am)
              | Inr pc \<Rightarrow>
                 (case addTracks pf (local_tracks am) pc of
                    (Some e, pc1) \<Rightarrow> (Some e, w, store_pc (sig_from s) pc1 am)
                  | (None, pc1) \<Rightarrow>
                     answer_offer pf (sig_from s) (sig_data s) pc1
                       (w, store_pc (sig_from s) pc1 am))))
       else if sig_type s = ''answer'' then
         (case get_pc am (sig_from s) of
            Undefined \<Rightarrow> (None, w, am)
          | Inherited \<Rightarrow> (Some (Thrown ''TypeError''), w, am)
          | Connection pc \<Rightarrow>
             (case newRTCSessionDescription (sig_data s) of
                Inl e \<Rightarrow> (Some e, w, am)
              | Inr remote \<Rightarrow>
                 (case setRemoteDescription pf pc remote of
                    Inl e \<Rightarrow> (Some e, w, am)
                  | Inr pc1 \<Rightarrow> (None, w, store_pc (sig_from s) pc1 am))))
       else if sig_type s = ''ice-candidate'' then
         (case get_pc am (sig_from s) of
            Undefined \<Rightarrow> (None, w, am)
          | Inherited \<Rightarrow>
             (case candidate (sig_data s) of
                None \<Rightarrow> (None, w, am)
              | Some c \<Rightarrow> (Some (Thrown ''TypeError''), w, am))
          | Connection pc \<Rightarrow>
             (case candidate (sig_data s) of
                None \<Rightarrow> (None, w, am)
              | Some c \<Rightarrow>
                 (case addIceCandidate pf pc c of
                    Inl e \<Rightarrow> (Some e, w, am)
                  | Inr pc1 \<Rightarrow> (None, w, store_pc (sig_from s) pc1 am))))
       else (None, w, am)))"

definition handleSignal ::
  "'pc platform \<Rightarrow> signal \<Rightarrow> world \<times> 'pc audio_manager \<Rightarrow> exn option \<times> world \<times> 'pc audio_manager" where
  "handleSignal pf s st =
     (case handleSignal_try pf s st of
        (None, w, am) \<Rightarrow> (None, w, am)
      | (Some e, w, am) \<Rightarrow> (None, w, am))"

text \<open>
  \<open>startSignalPolling\<close> registers the interval; \<open>signalPoll\<close> is its callback, run
  with the response of \<open>GET /webrtc/signals\<close>.
\<close>

definition startSignalPolling :: "world \<times> 'pc audio_manager \<Rightarrow> world \<times> 'pc audio_manager" where
  "startSignalPolling st =
     (case st of (w, am) \<Rightarrow>
        (case setTimer SignalPoll w of (h, w') \<Rightarrow> (w', am\<lparr>pollingInterval := Some h\<rparr>)))"

fun handle_each ::
  "'pc platform \<Rightarrow> signal list \<Rightarrow> world \<times> 'pc audio_manager \<Rightarrow> world \<times> 'pc audio_manager" where
  "handle_each pf [] st = st"
| "handle_each pf (s # ss) st = handle_each pf ss (snd (handleSignal pf s st))"



text \<open>\<open>getAudioTracks().forEach(track => track.enabled = v)\<close>.\<close>

definition set_enabled :: "bool \<Rightarrow> track list \<Rightarrow> track list" where
  "set_enabled v ts = map (\<lambda>t. if kind t = AudioTrack then t\<lparr>enabled := v\<rparr> else t) ts"

text \<open>
  \<open>initialize\<close> returns its boolean result. The call \<open>this.connectToPeers()\<close> at its
  end is not awaited: it issues the roster request, and \<open>connectToPeers\<close> above is the
  continuation that runs when the response arrives.
\<close>

definition initialize ::
  "host \<Rightarrow> bool \<Rightarrow> world \<times> 'pc audio_manager \<Rightarrow> exn option \<times> bool \<times> world \<times> 'pc audio_manager" where
  "initialize hst startMuted st =
     (case st of (w, am) \<Rightarrow>
      (if \<not> hasMediaDevices hst then (None, False, w, am)
       else
         (case getUserMedia hst of
            Inl e \<Rightarrow> (None, False, w, am)
          | Inr stream \<Rightarrow>
             (case startSignalPolling
                     (w, am\<lparr>localStream := Some (set_enabled (\<not> startMuted) stream),
                            isMuted := startMuted, isInitialized := True\<rparr>) of
                (w1, am1) \<Rightarrow>
                  (None, True, w1\<lparr>fetched := fetched w1 @ [''/webrtc/peers'']\<rparr>, am1)))))"

definition toggleMute :: "'pc audio_manager \<Rightarrow> bool \<times> 'pc audio_manager" where
  "toggleMute am =
     (\<not> isMuted am,
      am\<lparr>isMuted := \<not> isMuted am,
         localStream := map_option (set_enabled (isMuted am)) (localStream am)\<rparr>)"

definition getMuteState :: "'pc audio_manager \<Rightarrow> bool" where
  "getMuteState am = isMuted am"

text \<open>
  The loop of \<open>cleanup\<close> over \<open>Object.keys(this.peerConnections)\<close>: \<open>pc.close()\<close>, then
  the first element of the document with the id \<open>audio-peerId\<close> is removed, if any.
\<close>

fun close_each :: "(string \<times> 'pc) list \<Rightarrow> world \<Rightarrow> world" where
  "close_each [] w = w"
| "close_each ((peerId, pc) # rest) w =
     close_each rest
       (w\<lparr>closed_peers := closed_peers w @ [peerId],
          body := remove1 (''audio-'' @ peerId) (body w)\<rparr>)"

definition cleanup :: "world \<times> 'pc audio_manager \<Rightarrow> exn option \<times> world \<times> 'pc audio_manager" where
  "cleanup st =
     (case st of (w, am) \<Rightarrow>
        (let w1 = (case pollingInterval am of None \<Rightarrow> w | Some h \<Rightarrow> clearTimer h w);
             w2 = close_each (peerConnections am) w1;
             w3 = (case localStream am of
                     None \<Rightarrow> w2
                   | Some ts \<Rightarrow> w2\<lparr>stopped_tracks := stopped_tracks w2 @ ts\<rparr>)
         in (None, w3,
             am\<lparr>pollingInterval := None, peerConnections := [], localStream := None,
                isInitialized := False\<rparr>)))"

section \<open>Queue snapshots\<close>

text \<open>
  The answer of \<open>GET /queue/status/<sessionId>\<close>, and what both revisions of the
  component do with their timers, their toasts and the microphone.
\<close>

record queue_status =
  position :: nat
  totalInQueue :: nat
  isPosition1 :: bool
  isPosition2 :: bool
  position1Name :: string
  position2Name :: string

definition API :: string where
  "API = ''/api''"

text \<open>A string or \<open>null\<close> used as a condition: \<open>null\<close> and the empty string are falsy.\<close>

definition truthy :: "string option \<Rightarrow> bool" where
  "truthy s = (case s of None \<Rightarrow> False | Some x \<Rightarrow> x \<noteq> [])"

text \<open>
  \<open>if (ref.current) clearTimeout(ref.current)\<close>: the timer is cancelled, and whether the
  ref is emptied afterwards is written out where the source does it.
\<close>

definition clear_ref :: "nat option \<Rightarrow> world \<Rightarrow> world" where
  "clear_ref r w = (case r of None \<Rightarrow> w | Some k \<Rightarrow> clearTimer k w)"

definition showToast :: "string \<Rightarrow> world \<Rightarrow> world" where
  "showToast msg w = w\<lparr>toasts := toasts w @ [msg]\<rparr>"

text \<open>\<open>if (!getMuteState()) toggleMute()\<close> and its mirror image.\<close>

definition mute :: "'pc audio_manager \<Rightarrow> 'pc audio_manager" where
  "mute am = (if \<not> getMuteState am then snd (toggleMute am) else am)"

definition unmute :: "'pc audio_manager \<Rightarrow> 'pc audio_manager" where
  "unmute am = (if getMuteState am then snd (toggleMute am) else am)"

definition notify :: "world \<Rightarrow> world" where
  "notify w = (if notification_granted w then w\<lparr>notifications := Suc (notifications w)\<rparr> else w)"

section \<open>HomePage with the get-ready countdown\<close>

text \<open>
  The revision of the component in \<open>unnamed/part_002\<close> has no auto-skip timer at
  position 1; instead the participant at position 2 is given thirty seconds, counted down
  on screen, after which a \<open>skip\<close> is posted for them. Of that revision the state
  variables, refs and effects that touch the countdown are modelled, with the dependency
  values of the last run of the two effects.
\<close>

record 'pc home2 =
  sessionId :: "string option"
  queueStatus :: "queue_status option"
  wasPosition2 :: bool
  hasStartedReading :: bool
  statusMessage :: "string option"
  position2Timer :: int
  isPosition2TimerActive :: bool
  isMuted :: bool
  audioManager :: "'pc audio_manager option"
  position2TimerInterval :: "nat option"
  position2TimeoutRef :: "nat option"
  position2_deps :: "(bool option \<times> bool \<times> string option) option"
  position1_deps :: "bool option option"

definition POSITION_2_TIMER_DURATION :: int where
  "POSITION_2_TIMER_DURATION = 30"

text \<open>\<open>clearPosition2Timer\<close> cancels what the two refs hold, empties them and resets the display.\<close>

definition clearPosition2Timer :: "world \<times> 'pc home2 \<Rightarrow> world \<times> 'pc home2" where
  "clearPosition2Timer st =
     (case st of (w, h) \<Rightarrow>
        (clear_ref (position2TimeoutRef h) (clear_ref (position2TimerInterval h) w),
         h\<lparr>position2TimerInterval := None, position2TimeoutRef := None,
           position2Timer := POSITION_2_TIMER_DURATION, isPosition2TimerActive := False\<rparr>))"

text \<open>
  \<open>startPosition2Timer\<close> is memoised on \<open>sessionId\<close>, the value its timeout callback
  closes over.
\<close>

definition startPosition2Timer :: "world \<times> 'pc home2 \<Rightarrow> world \<times> 'pc home2" where
  "startPosition2Timer st =
     (case clearPosition2Timer st of (w, h) \<Rightarrow>
        (case setTimer Position2Countdown w of
           (i, w1) \<Rightarrow>
             (case setTimer (Position2Timeout (home2.sessionId h)) w1 of
                (t, w2) \<Rightarrow>
                  (w2, h\<lparr>isPosition2TimerActive := True,
                         position2Timer := POSITION_2_TIMER_DURATION,
                         position2TimerInterval := Some i, position2TimeoutRef := Some t\<rparr>))))"

text \<open>
  The two callbacks. A tick is \<open>setPosition2Timer(prev => prev <= 1 ? 0 : prev - 1)\<close>; the
  timeout, spent when it fires, returns at once without a session id and posts the
  \<open>skip\<close> otherwise.
\<close>

definition position2_timer_fired :: "nat \<Rightarrow> world \<times> 'pc home2 \<Rightarrow> world \<times> 'pc home2" where
  "position2_timer_fired k st =
     (case st of (w, h) \<Rightarrow>
        (case map_of (timers w) k of
           Some Position2Countdown \<Rightarrow>
             (w, h\<lparr>position2Timer := (if position2Timer h \<le> 1 then 0 else position2Timer h - 1)\<rparr>)
         | Some (Position2Timeout sid) \<Rightarrow>
             (case sid of
                None \<Rightarrow> (clearTimer k w, h)
              | Some s \<Rightarrow>
                 (if s = [] then (clearTimer k w, h)
                  else ((clearTimer k w)\<lparr>actions_sent := actions_sent w @ [(s, Skip)]\<rparr>, h)))
         | _ \<Rightarrow> (w, h)))"

text \<open>The rest of the timeout callback, from the response to its request on.\<close>

definition position2_skip_response :: "unit response \<Rightarrow> world \<times> 'pc home2 \<Rightarrow> world \<times> 'pc home2" where
  "position2_skip_response r st =
     (case st of (w, h) \<Rightarrow>
        clearPosition2Timer
          (case r of
             Ok u \<Rightarrow>
               ((showToast ''Moved to end of queue due to inactivity'' w)
                  \<lparr>fetched := fetched w @ [''/queue/status'']\<rparr>,
                h\<lparr>statusMessage := Some ''Moved to end of queue due to inactivity.''\<rparr>)
           | _ \<Rightarrow> (w, h)))"

text \<open>
  The effect on \<open>[queueStatus?.isPosition2, wasPosition2, startPosition2Timer]\<close> and the
  effect on \<open>[queueStatus?.isPosition1]\<close> that follows it in the component.
\<close>

definition position2_effect :: "world \<times> 'pc home2 \<Rightarrow> world \<times> 'pc home2" where
  "position2_effect st =
     (case st of (w, h) \<Rightarrow>
        (case home2.queueStatus h of
           Some q \<Rightarrow>
             (if isPosition2 q \<and> \<not> home2.wasPosition2 h
              then (case startPosition2Timer (w, h) of
                      (w', h') \<Rightarrow> (w', h'\<lparr>home2.wasPosition2 := True\<rparr>))
              else if \<not> isPosition2 q \<and> home2.wasPosition2 h
              then (case clearPosition2Timer (w, h) of
                      (w', h') \<Rightarrow> (w', h'\<lparr>home2.wasPosition2 := False\<rparr>))
              else (w, h))
         | None \<Rightarrow>
             (if home2.wasPosition2 h
              then (case clearPosition2Timer (w, h) of
                      (w', h') \<Rightarrow> (w', h'\<lparr>home2.wasPosition2 := False\<rparr>))
              else (w, h))))"

definition position1_effect :: "world \<times> 'pc home2 \<Rightarrow> world \<times> 'pc home2" where
  "position1_effect st =
     (case st of (w, h) \<Rightarrow>
        (case home2.queueStatus h of
           Some q \<Rightarrow>
             (if isPosition1 q
              then (case clearPosition2Timer (w, h) of
                      (w', h') \<Rightarrow> (notify w', h'\<lparr>home2.wasPosition2 := False\<rparr>))
              else (case home2.audioManager h of
                      Some am \<Rightarrow>
                        (w, h\<lparr>home2.hasStartedReading := False,
                              home2.audioManager := Some (mute am), home2.isMuted := True\<rparr>)
                    | None \<Rightarrow> (w, h\<lparr>home2.hasStartedReading := False\<rparr>)))
         | None \<Rightarrow> (w, h\<lparr>home2.hasStartedReading := False\<rparr>)))"

definition position2_effect_deps :: "'pc home2 \<Rightarrow> bool option \<times> bool \<times> string option" where
  "position2_effect_deps h =
     (map_option isPosition2 (home2.queueStatus h), home2.wasPosition2 h, home2.sessionId h)"

definition position1_effect_deps :: "'pc home2 \<Rightarrow> bool option" where
  "position1_effect_deps h = map_option isPosition1 (home2.queueStatus h)"

text \<open>
  One render runs the effects whose dependencies differ from those of their last run, in
  the order of the component, each reading the variables of that render. Only
  \<open>wasPosition2\<close> is both written by an effect and a dependency, so the third render
  after an update is the last that can run an effect.
\<close>

definition render_p2 :: "world \<times> 'pc home2 \<Rightarrow> world \<times> 'pc home2" where
  "render_p2 st =
     (case st of (w, h) \<Rightarrow>
        (case (if position2_deps h = Some (position2_effect_deps h) then (w, h)
               else position2_effect (w, h\<lparr>position2_deps := Some (position2_effect_deps h)\<rparr>)) of
           (w1, h1) \<Rightarrow>
             (if position1_deps h1 = Some (position1_effect_deps h) then (w1, h1)
              else position1_effect
                     (w1, h1\<lparr>position1_deps := Some (position1_effect_deps h)\<rparr>))))"

definition flush_p2 :: "world \<times> 'pc home2 \<Rightarrow> world \<times> 'pc home2" where
  "flush_p2 st = render_p2 (render_p2 (render_p2 st))"

text \<open>
  What happens to the component while it waits: a status poll answered with a snapshot,
  a timer that fires, the answer to the automatic \<open>skip\<close>.
\<close>

datatype event_p2 =
    Snapshot queue_status
  | Fired nat
  | SkipResponse "unit response"

fun step_p2 :: "event_p2 \<Rightarrow> world \<times> 'pc home2 \<Rightarrow> world \<times> 'pc home2" where
  "step_p2 (Snapshot q) st = flush_p2 (fst st, (snd st)\<lparr>home2.queueStatus := Some q\<rparr>)"
| "step_p2 (Fired k) st = flush_p2 (position2_timer_fired k st)"
| "step_p2 (SkipResponse r) st = flush_p2 (position2_skip_response r st)"

fun run_p2 :: "event_p2 list \<Rightarrow> world \<times> 'pc home2 \<Rightarrow> world \<times> 'pc home2" where
  "run_p2 [] st = st"
| "run_p2 (ev # evs) st = run_p2 evs (step_p2 ev st)"

text \<open>Between events every effect has run on the present values of its dependencies.\<close>

definition settled_p2 :: "'pc home2 \<Rightarrow> bool" where
  "settled_p2 h = (position2_deps h = Some (position2_effect_deps h) \<and>
                   position1_deps h = Some (position1_effect_deps h))"

definition new_HomePage_p2 :: "'pc home2" where
  "new_HomePage_p2 =
     \<lparr>sessionId = None, queueStatus = None, wasPosition2 = False, hasStartedReading = False,
      statusMessage = None, position2Timer = POSITION_2_TIMER_DURATION,
      isPosition2TimerActive = False, isMuted = True, audioManager = None,
      position2TimerInterval = None, position2TimeoutRef = None, position2_deps = None,
      position1_deps = None\<rparr>"

text \<open>
  The events of a participant who stays at position 2: every snapshot reports position 2
  and not position 1.
\<close>

fun is_waiting :: "event_p2 \<Rightarrow> bool" where
  "is_waiting (Snapshot q) = (isPosition2 q \<and> \<not> isPosition1 q)"
| "is_waiting (Fired k) = True"
| "is_waiting (SkipResponse r) = True"

definition waiting_at_2 :: "'pc home2 \<Rightarrow> bool" where
  "waiting_at_2 h =
     (settled_p2 h \<and> home2.wasPosition2 h \<and>
      (case home2.queueStatus h of
         Some q \<Rightarrow> isPosition2 q \<and> \<not> isPosition1 q
       | None \<Rightarrow> False))"

section \<open>HomePage\<close>

text \<open>
  The component \<open>HomePage\<close> of \<open>frontend/src/pages/HomePage.js\<close>: its state variables,
  its refs and, for the two effects modelled, the dependency values of their last run.
  The document viewer and the sub-group list are left out.
\<close>

record 'pc home =
  userRole :: "string option"
  name :: string
  sessionId :: "string option"
  hasJoined :: bool
  loading :: bool
  queueStatus :: "queue_status option"
  autoSkipTimer :: int
  wasPosition2 :: bool
  isExpanded :: bool
  hasStartedReading :: bool
  selectedSubGroup :: "string option"
  isMuted :: bool
  audioInitialized :: bool
  audioManager :: "'pc audio_manager option"
  pollingInterval :: "nat option"
  autoSkipTimeout :: "nat option"
  timerInterval :: "nat option"
  documentPollingInterval :: "nat option"
  polling_deps :: "(string option \<times> bool) option"
  position_deps :: "(bool option \<times> bool option \<times> bool \<times> bool \<times> string option) option"

definition initializeAudio ::
  "host \<Rightarrow> string \<Rightarrow> string \<Rightarrow> bool \<Rightarrow> world \<times> 'pc home \<Rightarrow> world \<times> 'pc home" where
  "initializeAudio hst sid sg startMuted st =
     (case st of (w, h) \<Rightarrow>
        (case initialize hst startMuted (w, new_AudioManager sid sg API) of
           (None, True, w', am) \<Rightarrow>
             (w', h\<lparr>audioManager := Some am, audioInitialized := True, isMuted := startMuted\<rparr>)
         | (_, _, w', am) \<Rightarrow> (w', h\<lparr>audioManager := Some am\<rparr>)))"

text \<open>The handler of the mute button.\<close>

definition HomePage_toggleMute :: "world \<times> 'pc home \<Rightarrow> world \<times> 'pc home" where
  "HomePage_toggleMute st =
     (case st of (w, h) \<Rightarrow>
        (case audioManager h of
           None \<Rightarrow> (w, h)
         | Some am \<Rightarrow>
            (case toggleMute am of
               (newMutedState, am') \<Rightarrow> (w, h\<lparr>audioManager := Some am', isMuted := newMutedState\<rparr>))))"

definition handleSessionEnd :: "world \<times> 'pc home \<Rightarrow> exn option \<times> world \<times> 'pc home" where
  "handleSessionEnd st =
     (case st of (w, h) \<Rightarrow>
        (let w1 = clear_ref (documentPollingInterval h)
                    (clear_ref (timerInterval h)
                       (clear_ref (autoSkipTimeout h) (clear_ref (pollingInterval h) w)))
         in (case (case audioManager h of
                     None \<Rightarrow> (None, w1, h)
                   | Some am \<Rightarrow>
                      (case cleanup (w1, am) of
                         (None, w2, am') \<Rightarrow> (None, w2, h\<lparr>audioManager := None\<rparr>)
                       | (Some e, w2, am') \<Rightarrow> (Some e, w2, h\<lparr>audioManager := Some am'\<rparr>))) of
               (Some e, w2, h2) \<Rightarrow> (Some e, w2, h2)
             | (None, w2, h2) \<Rightarrow>
                (None,
                 showToast ''Session ended by Admin''
                   (w2\<lparr>localStorage :=
                         AList.delete ''userName'' (AList.delete ''sessionId'' (localStorage w2))\<rparr>),
                 h2\<lparr>audioInitialized := False, isMuted := True, hasJoined := False,
                    sessionId := None, queueStatus := None, name := [], userRole := None,
                    isExpanded := False, hasStartedReading := False\<rparr>))))"

text \<open>
  \<open>fetchQueueStatus\<close> in its two steps: up to the request, and from the response on.
  The result is the value returned (\<open>null\<close> or the snapshot).
\<close>

definition fetchQueueStatus_request :: "string option \<Rightarrow> world \<times> 'pc home \<Rightarrow> bool \<times> world \<times> 'pc home" where
  "fetchQueueStatus_request sid st =
     (case st of (w, h) \<Rightarrow>
        (if \<not> truthy (if truthy sid then sid else sessionId h) then (False, w, h)
         else (True, w\<lparr>fetched := fetched w @ [''/queue/status'']\<rparr>, h)))"

definition fetchQueueStatus_response ::
  "queue_status response \<Rightarrow> world \<times> 'pc home \<Rightarrow>
     exn option \<times> queue_status option \<times> world \<times> 'pc home" where
  "fetchQueueStatus_response r st =
     (case st of (w, h) \<Rightarrow>
        (case r of
           NetworkError \<Rightarrow> (None, None, w, h)
         | NotOk \<Rightarrow> (case handleSessionEnd (w, h) of (e, w', h') \<Rightarrow> (None, None, w', h'))
         | Ok data \<Rightarrow> (None, Some data, w, h\<lparr>queueStatus := Some data\<rparr>)))"

definition fetchQueueStatus ::
  "string option \<Rightarrow> queue_status response \<Rightarrow> world \<times> 'pc home \<Rightarrow>
     exn option \<times> queue_status option \<times> world \<times> 'pc home" where
  "fetchQueueStatus sid r st =
     (case fetchQueueStatus_request sid st of
        (False, st') \<Rightarrow> (None, None, st')
      | (True, st') \<Rightarrow> fetchQueueStatus_response r st')"

definition startPolling :: "world \<times> 'pc home \<Rightarrow> world \<times> 'pc home" where
  "startPolling st =
     (case st of (w, h) \<Rightarrow>
        (case setTimer QueuePoll (clear_ref (pollingInterval h) w) of
           (k, w') \<Rightarrow> (w', h\<lparr>pollingInterval := Some k\<rparr>)))"

text \<open>
  \<open>startAutoSkipTimer\<close>: the countdown interval starts with \<open>secondsLeft = 10\<close>; the
  timeout callback captures \<open>hasStartedReading\<close> and \<open>sessionId\<close> of the render that
  created it.
\<close>

definition startAutoSkipTimer :: "world \<times> 'pc home \<Rightarrow> world \<times> 'pc home" where
  "startAutoSkipTimer st =
     (case st of (w, h) \<Rightarrow>
        (case setTimer (Countdown 10) (clear_ref (timerInterval h) (clear_ref (autoSkipTimeout h) w)) of
           (i, w1) \<Rightarrow>
             (case setTimer (AutoSkip (hasStartedReading h) (sessionId h)) w1 of
                (t, w2) \<Rightarrow>
                  (w2, h\<lparr>autoSkipTimer := 10, timerInterval := Some i, autoSkipTimeout := Some t\<rparr>))))"

text \<open>
  What a live timer does when it fires. A countdown decrements its \<open>secondsLeft\<close>,
  shows it, and at zero clears the interval \<open>timerInterval\<close> refers to. The auto-skip
  timeout is spent by firing; unless its captured flags stop it, it posts \<open>skip\<close>.
  A poll interval issues its request.
\<close>

definition timer_fired :: "nat \<Rightarrow> world \<times> 'pc home \<Rightarrow> world \<times> 'pc home" where
  "timer_fired k st =
     (case st of (w, h) \<Rightarrow>
        (case map_of (timers w) k of
           None \<Rightarrow> (w, h)
         | Some (Countdown n) \<Rightarrow>
             (let w1 = w\<lparr>timers := AList.update k (Countdown (n - 1)) (timers w)\<rparr>;
                  h1 = h\<lparr>autoSkipTimer := n - 1\<rparr>
              in if n - 1 \<le> 0 then (clear_ref (timerInterval h1) w1, h1) else (w1, h1))
         | Some (AutoSkip started sid) \<Rightarrow>
             (case sid of
                None \<Rightarrow> (clearTimer k w, h)
              | Some s \<Rightarrow>
                 (if started \<or> s = [] then (clearTimer k w, h)
                  else ((clearTimer k w)\<lparr>actions_sent := actions_sent w @ [(s, Skip)]\<rparr>, h)))
         | Some QueuePoll \<Rightarrow> (w\<lparr>fetched := fetched w @ [''/queue/status'']\<rparr>, h)
         | Some SignalPoll \<Rightarrow> (w\<lparr>fetched := fetched w @ [''/webrtc/signals'']\<rparr>, h)
         | Some _ \<Rightarrow> (w, h)))"

text \<open>The rest of the auto-skip callback, from the response to its \<open>skip\<close> request on.\<close>

definition autoSkip_response :: "unit response \<Rightarrow> world \<times> 'pc home \<Rightarrow> world \<times> 'pc home" where
  "autoSkip_response r st =
     (case st of (w, h) \<Rightarrow>
        (case r of
           Ok u \<Rightarrow>
             snd (fetchQueueStatus_request None
                    (showToast ''Moved to back of queue due to inactivity'' w,
                     h\<lparr>isExpanded := False\<rparr>))
         | _ \<Rightarrow> (w, h)))"

text \<open>
  \<open>handleAction\<close>: \<open>handleAction_prepare\<close> is the code before the request,
  \<open>handleAction_request\<close> adds the \<open>POST /queue/action\<close>, \<open>handleAction_response\<close> is the
  code that runs when the response arrives.
\<close>

definition handleAction_prepare :: "action \<Rightarrow> world \<times> 'pc home \<Rightarrow> world \<times> 'pc home" where
  "handleAction_prepare a st =
     (case st of (w, h) \<Rightarrow>
        (let w1 = clear_ref (timerInterval h) (clear_ref (autoSkipTimeout h) w);
             h1 = h\<lparr>isExpanded := False, autoSkipTimeout := None, timerInterval := None,
                    autoSkipTimer := 10\<rparr>
         in (case audioManager h1 of
               Some am \<Rightarrow>
                 (if a = Skip \<or> a = Finish
                  then (w1, h1\<lparr>audioManager := Some (mute am), isMuted := True\<rparr>)
                  else (w1, h1))
             | None \<Rightarrow> (w1, h1))))"

definition handleAction_request :: "action \<Rightarrow> world \<times> 'pc home \<Rightarrow> world \<times> 'pc home" where
  "handleAction_request a st =
     (case sessionId (snd st) of
        None \<Rightarrow> st
      | Some sid \<Rightarrow>
         (if sid = [] then st
          else (case handleAction_prepare a st of
                  (w, h) \<Rightarrow> (w\<lparr>actions_sent := actions_sent w @ [(sid, a)]\<rparr>, h))))"

definition handleAction_response ::
  "action \<Rightarrow> unit response \<Rightarrow> world \<times> 'pc home \<Rightarrow> world \<times> 'pc home" where
  "handleAction_response a r st =
     (case st of (w, h) \<Rightarrow>
        (case r of
           NetworkError \<Rightarrow> (showToast ''Failed to process action'' w, h)
         | NotOk \<Rightarrow> (showToast ''Failed to process action'' w, h)
         | Ok u \<Rightarrow>
            snd (fetchQueueStatus_request None
              (case a of
                 Start \<Rightarrow>
                   (showToast ''Started reading session'' w,
                    (case audioManager h of
                       None \<Rightarrow> h\<lparr>hasStartedReading := True\<rparr>
                     | Some am \<Rightarrow>
                        h\<lparr>hasStartedReading := True, audioManager := Some (unmute am),
                          isMuted := False\<rparr>))
               | Skip \<Rightarrow> (showToast ''Skipped turn - moved to back of queue'' w, h)
               | Finish \<Rightarrow> (showToast ''Finished reading - moved to back of queue'' w, h)))))"

definition handleAction ::
  "action \<Rightarrow> unit response \<Rightarrow> world \<times> 'pc home \<Rightarrow> world \<times> 'pc home" where
  "handleAction a r st =
     (if truthy (sessionId (snd st)) then handleAction_response a r (handleAction_request a st)
      else st)"

subsection \<open>Effects\<close>

text \<open>
  After an update the component renders, and an effect runs when one of its
  dependencies differs from the value it had at the effect's last run. The effect that
  starts the status poll depends on \<open>[sessionId, hasJoined]\<close>. The position effect
  depends on \<open>queueStatus?.isPosition1\<close>, \<open>queueStatus?.isPosition2\<close>, \<open>wasPosition2\<close>,
  \<open>hasStartedReading\<close> and \<open>startAutoSkipTimer\<close>, a callback that is renewed when
  \<open>sessionId\<close> or \<open>hasStartedReading\<close> changes. State variables are read as the render
  saw them, refs as they are now.
\<close>

definition polling_effect :: "world \<times> 'pc home \<Rightarrow> world \<times> 'pc home" where
  "polling_effect st =
     (if truthy (sessionId (snd st)) \<and> hasJoined (snd st) then startPolling st else st)"

definition at_position1 :: "'pc home \<Rightarrow> bool" where
  "at_position1 h = (case queueStatus h of None \<Rightarrow> False | Some q \<Rightarrow> isPosition1 q)"

definition at_position2 :: "'pc home \<Rightarrow> bool" where
  "at_position2 h = (case queueStatus h of None \<Rightarrow> False | Some q \<Rightarrow> isPosition2 q)"

definition position_effect :: "world \<times> 'pc home \<Rightarrow> world \<times> 'pc home" where
  "position_effect st =
     (case st of (w, h) \<Rightarrow>
        (case
           (if at_position1 h then
              (let h1 = (if \<not> hasStartedReading h then h\<lparr>isExpanded := True\<rparr> else h);
                   st2 = (if wasPosition2 h then (notify w, h1\<lparr>wasPosition2 := False\<rparr>)
                          else (w, h1))
               in if \<not> hasStartedReading h \<and> autoSkipTimeout h = None
                  then startAutoSkipTimer st2
                  else if hasStartedReading h
                  then (clear_ref (timerInterval h) (clear_ref (autoSkipTimeout h) (fst st2)),
                        (snd st2)\<lparr>autoSkipTimeout := None, timerInterval := None\<rparr>)
                  else st2)
            else
              (let w1 = clear_ref (timerInterval h) (clear_ref (autoSkipTimeout h) w);
                   h1 = h\<lparr>autoSkipTimer := 10, hasStartedReading := False\<rparr>
               in (case audioManager h of
                     Some am \<Rightarrow>
                       (if queueStatus h \<noteq> None
                        then (w1, h1\<lparr>audioManager := Some (mute am), isMuted := True\<rparr>)
                        else (w1, h1))
                   | None \<Rightarrow> (w1, h1)))) of
           (w', h') \<Rightarrow>
             (if at_position2 h then (w', h'\<lparr>wasPosition2 := True\<rparr>) else (w', h'))))"

definition polling_effect_deps :: "'pc home \<Rightarrow> string option \<times> bool" where
  "polling_effect_deps h = (sessionId h, hasJoined h)"

definition position_effect_deps ::
  "'pc home \<Rightarrow> bool option \<times> bool option \<times> bool \<times> bool \<times> string option" where
  "position_effect_deps h =
     (map_option isPosition1 (queueStatus h), map_option isPosition2 (queueStatus h),
      wasPosition2 h, hasStartedReading h, sessionId h)"

text \<open>One render with its effects, and the renders that follow an update: the second
  one runs the effects again where the first changed a dependency.\<close>

definition render :: "world \<times> 'pc home \<Rightarrow> world \<times> 'pc home" where
  "render st =
     (case st of (w, h) \<Rightarrow>
        (case (if polling_deps h = Some (polling_effect_deps h) then (w, h)
               else polling_effect (w, h\<lparr>polling_deps := Some (polling_effect_deps h)\<rparr>)) of
           (w1, h1) \<Rightarrow>
             (if position_deps h1 = Some (position_effect_deps h) then (w1, h1)
              else position_effect (w1, h1\<lparr>position_deps := Some (position_effect_deps h)\<rparr>))))"

definition flush :: "world \<times> 'pc home \<Rightarrow> world \<times> 'pc home" where
  "flush st = render (render st)"

subsection \<open>Joining\<close>

text \<open>
  \<open>String.prototype.trim\<close> removes white space and line terminators at both ends:
  among the characters of one byte these are the tab, the line feed, the vertical tab,
  the form feed, the carriage return, the space and the no-break space.
\<close>

definition white_space :: "char list" where
  "white_space = [CHR 0x09, CHR 0x0A, CHR 0x0B, CHR 0x0C, CHR 0x0D, CHR 0x20, CHR 0xA0]"

definition trim :: "string \<Rightarrow> string" where
  "trim s =
     rev (dropWhile (\<lambda>c. c \<in> set white_space) (rev (dropWhile (\<lambda>c. c \<in> set white_space) s)))"

definition new_HomePage :: "'pc home" where
  "new_HomePage =
     \<lparr>userRole = None, name = [], sessionId = None, hasJoined = False, loading = False,
      queueStatus = None, autoSkipTimer = 10, wasPosition2 = False, isExpanded = False,
      hasStartedReading = False, selectedSubGroup = None, isMuted = True,
      audioInitialized = False, audioManager = None, pollingInterval = None,
      autoSkipTimeout = None, timerInterval = None, documentPollingInterval = None,
      polling_deps = None, position_deps = None\<rparr>"

text \<open>
  \<open>joinQueue\<close> with the responses to its join request and to its status request, the
  component rendering at each \<open>await\<close>.
\<close>

definition joinQueue ::
  "host \<Rightarrow> string response \<Rightarrow> queue_status response \<Rightarrow> world \<times> 'pc home \<Rightarrow> world \<times> 'pc home" where
  "joinQueue hst rj rs st =
     (case st of (w, h) \<Rightarrow>
        (if trim (name h) = [] then (showToast ''Please enter your name'' w, h)
         else
           (case selectedSubGroup h of
              None \<Rightarrow> (showToast ''Please select a sub-group first'' w, h)
            | Some sg \<Rightarrow>
               (if sg = [] then (showToast ''Please select a sub-group first'' w, h)
                else
                  (case rj of
                     Ok sid \<Rightarrow>
                       (case fetchQueueStatus (Some sid) rs
                               (flush
                                  (w\<lparr>localStorage :=
                                       AList.update ''userName'' (trim (name h))
                                         (AList.update ''sessionId'' sid (localStorage w))\<rparr>,
                                   h\<lparr>loading := True, sessionId := Some sid, hasJoined := True\<rparr>)) of
                          (e, statusData, st2) \<Rightarrow>
                            (case flush
                                    (case statusData of
                                       None \<Rightarrow> flush st2
                                     | Some q \<Rightarrow>
                                        initializeAudio hst sid sg (\<not> isPosition1 q) (flush st2)) of
                               (w3, h3) \<Rightarrow> flush (w3, h3\<lparr>loading := False\<rparr>)))
                   | _ \<Rightarrow> (showToast ''Failed to join queue'' w, h))))))"

subsection \<open>Events\<close>

text \<open>
  What can happen to a joined client, one step of the control thread each: a response
  to a status request, a click on an action button, the response to an action request,
  a click on the mute button, a timer firing, the response to the automatic skip.
  Responses are not tied to requests: any order of completion is a sequence of events.
  The component renders after each.
\<close>

datatype event =
    StatusResponse "queue_status response"
  | ActionClick action
  | ActionResponse action "unit response"
  | MuteClick
  | TimerFired nat
  | AutoSkipResponse "unit response"

fun step :: "event \<Rightarrow> world \<times> 'pc home \<Rightarrow> world \<times> 'pc home" where
  "step (StatusResponse r) st = flush (snd (snd (fetchQueueStatus_response r st)))"
| "step (ActionClick a) st = flush (handleAction_request a st)"
| "step (ActionResponse a r) st = flush (handleAction_response a r st)"
| "step MuteClick st = flush (HomePage_toggleMute st)"
| "step (TimerFired k) st = flush (timer_fired k st)"
| "step (AutoSkipResponse r) st = flush (autoSkip_response r st)"

fun run :: "event list \<Rightarrow> world \<times> 'pc home \<Rightarrow> world \<times> 'pc home" where
  "run [] st = st"
| "run (ev # evs) st = run evs (step ev st)"

text \<open>The state of the turn coordinator that the component's variables stand for.\<close>

datatype turn = NotInQueue | Queued | Position2 | Position1Idle | Position1Reading

definition turn_state :: "'pc home \<Rightarrow> turn" where
  "turn_state h =
     (case queueStatus h of
        None \<Rightarrow> NotInQueue
      | Some q \<Rightarrow>
         (if isPosition1 q then (if hasStartedReading h then Position1Reading else Position1Idle)
          else if isPosition2 q then Position2
          else Queued))"

text \<open>The world as the releases of \<open>handleSessionEnd\<close> leave it, before the stored
  session is removed and the toast shown.\<close>

definition session_end_world :: "world \<Rightarrow> 'pc home \<Rightarrow> world" where
  "session_end_world w h =
     (let w1 = clear_ref (documentPollingInterval h)
                    (clear_ref (timerInterval h)
                       (clear_ref (autoSkipTimeout h) (clear_ref (pollingInterval h) w)))
      in case audioManager h of None \<Rightarrow> w1 | Some am \<Rightarrow> fst (snd (cleanup (w1, am))))"

subsection \<open>Settled and coherent states\<close>

text \<open>
  A state is settled when no effect is due. It is coherent when the manager's mute flag
  and the \<open>enabled\<close> flags of the local audio tracks agree with \<open>isMuted\<close>, and a manager
  exists only with a snapshot. \<open>pending_inv\<close> is what holds between an update and the
  renders that follow it.
\<close>

definition settled :: "'pc home \<Rightarrow> bool" where
  "settled h = (polling_deps h = Some (polling_effect_deps h) \<and>
                position_deps h = Some (position_effect_deps h))"

definition tracks_follow :: "'pc audio_manager \<Rightarrow> bool" where
  "tracks_follow am =
     (\<forall>t \<in> set (local_tracks am). kind t = AudioTrack \<longrightarrow> enabled t = (\<not> audio_manager.isMuted am))"

definition coherent :: "'pc home \<Rightarrow> bool" where
  "coherent h =
     (case audioManager h of
        None \<Rightarrow> isMuted h
      | Some am \<Rightarrow> audio_manager.isMuted am = isMuted h \<and> tracks_follow am \<and> queueStatus h \<noteq> None)"

definition muted_unless_reading :: "'pc home \<Rightarrow> bool" where
  "muted_unless_reading h =
     ((hasStartedReading h \<longrightarrow> at_position1 h) \<and> (\<not> isMuted h \<longrightarrow> hasStartedReading h))"

definition due :: "'pc home \<Rightarrow> bool" where
  "due h = (position_deps h \<noteq> Some (position_effect_deps h))"

definition turn_inv :: "'pc home \<Rightarrow> bool" where
  "turn_inv h = (settled h \<and> coherent h \<and> muted_unless_reading h)"

definition pending_inv :: "'pc home \<Rightarrow> bool" where
  "pending_inv h =
     (coherent h \<and> (\<not> isMuted h \<longrightarrow> hasStartedReading h) \<and>
      (hasStartedReading h \<and> \<not> at_position1 h \<longrightarrow> due h))"

subsection \<open>The auto-skip timers\<close>

text \<open>
  The coordinator's timers are the countdown intervals and the auto-skip timeouts. An
  event is quiet when the participant takes no action with it and stays at position 1.
  The auto-skip timer is armed when, at position 1 and before \<open>start\<close>, the two refs
  hold the handles \<open>i\<close> and \<open>t\<close>, the countdown \<open>i\<close> is live with \<open>left\<close> seconds to go
  (or spent), the timeout \<open>t\<close> is live if \<open>pending\<close>, having captured
  \<open>hasStartedReading = false\<close> and the session id, and no other timer of the
  coordinator is live. \<open>seconds_left\<close> is what \<open>c\<close> ticks leave of a countdown.
\<close>

definition coordinator :: "nat \<times> timer \<Rightarrow> bool" where
  "coordinator kt = (case snd kt of Countdown n \<Rightarrow> True | AutoSkip s sid \<Rightarrow> True | _ \<Rightarrow> False)"

definition coordinator_timers :: "world \<Rightarrow> (nat \<times> timer) list" where
  "coordinator_timers w = filter coordinator (timers w)"

fun quiet :: "event \<Rightarrow> bool" where
  "quiet (StatusResponse (Ok q)) = isPosition1 q"
| "quiet (StatusResponse NetworkError) = True"
| "quiet (StatusResponse NotOk) = False"
| "quiet (ActionClick a) = False"
| "quiet (ActionResponse a r) = False"
| "quiet MuteClick = True"
| "quiet (TimerFired k) = True"
| "quiet (AutoSkipResponse r) = True"

definition armed :: "nat \<Rightarrow> nat \<Rightarrow> string \<Rightarrow> int option \<Rightarrow> bool \<Rightarrow> world \<times> 'pc home \<Rightarrow> bool" where
  "armed i t sid left pending st =
     (case st of (w, h) \<Rightarrow>
        at_position1 h \<and> \<not> hasStartedReading h \<and> settled h \<and>
        timerInterval h = Some i \<and> autoSkipTimeout h = Some t \<and> i \<noteq> t \<and> sid \<noteq> [] \<and>
        distinct (map fst (timers w)) \<and>
        coordinator_timers w =
          (case left of None \<Rightarrow> [] | Some n \<Rightarrow> [(i, Countdown n)]) @
          (if pending then [(t, AutoSkip False (Some sid))] else []) \<and>
        (case left of None \<Rightarrow> True | Some n \<Rightarrow> 0 < n))"

definition seconds_left :: "int option \<Rightarrow> nat \<Rightarrow> int option" where
  "seconds_left left c =
     (case left of None \<Rightarrow> None | Some n \<Rightarrow> if n \<le> int c then None else Some (n - int c))"

section \<open>An example host\<close>

text \<open>
  A browser to run the model on: connections that follow the signaling state machine
  of the WebRTC API, where a remote answer is accepted only while a local offer is
  pending.
\<close>

record rtc =
  rtc_state :: signaling_state
  rtc_local :: "sdp option"
  rtc_remote :: "sdp option"
  rtc_senders :: "track list"
  rtc_candidates :: "string list"

definition fresh_rtc :: rtc where
  "fresh_rtc =
     \<lparr>rtc_state = Stable, rtc_local = None, rtc_remote = None, rtc_senders = [],
      rtc_candidates = []\<rparr>"

definition rtc_setLocalDescription :: "rtc \<Rightarrow> sdp \<Rightarrow> exn + rtc" where
  "rtc_setLocalDescription pc d =
     (case d of
        Sdp OfferKind x \<Rightarrow>
          (if rtc_state pc = Stable \<or> rtc_state pc = HaveLocalOffer
           then Inr (pc\<lparr>rtc_state := HaveLocalOffer, rtc_local := Some d\<rparr>)
           else Inl (Thrown ''InvalidStateError''))
      | Sdp AnswerKind x \<Rightarrow>
          (if rtc_state pc = HaveRemoteOffer
           then Inr (pc\<lparr>rtc_state := Stable, rtc_local := Some d\<rparr>)
           else Inl (Thrown ''InvalidStateError'')))"

definition rtc_setRemoteDescription :: "rtc \<Rightarrow> sdp \<Rightarrow> exn + rtc" where
  "rtc_setRemoteDescription pc d =
     (case d of
        Sdp OfferKind x \<Rightarrow>
          (if rtc_state pc = Stable \<or> rtc_state pc = HaveRemoteOffer
           then Inr (pc\<lparr>rtc_state := HaveRemoteOffer, rtc_remote := Some d\<rparr>)
           else Inl (Thrown ''InvalidStateError''))
      | Sdp AnswerKind x \<Rightarrow>
          (if rtc_state pc = HaveLocalOffer
           then Inr (pc\<lparr>rtc_state := Stable, rtc_remote := Some d\<rparr>)
           else Inl (Thrown ''InvalidStateError'')))"

definition browser :: "rtc platform" where
  "browser =
     \<lparr>newRTCPeerConnection = Inr fresh_rtc,
      addTrack = (\<lambda>pc t.
        if rtc_state pc = Closed then Inl (Thrown ''InvalidStateError'')
        else Inr (pc\<lparr>rtc_senders := rtc_senders pc @ [t]\<rparr>)),
      createOffer = (\<lambda>pc.
        if rtc_state pc = Closed then Inl (Thrown ''InvalidStateError'')
        else Inr (Sdp OfferKind ''offer'')),
      createAnswer = (\<lambda>pc.
        if rtc_state pc = HaveRemoteOffer then Inr (Sdp AnswerKind ''answer'')
        else Inl (Thrown ''InvalidStateError'')),
      setLocalDescription = rtc_setLocalDescription,
      setRemoteDescription = rtc_setRemoteDescription,
      addIceCandidate = (\<lambda>pc c.
        if rtc_remote pc = None then Inl (Thrown ''InvalidStateError'')
        else Inr (pc\<lparr>rtc_candidates := rtc_candidates pc @ [c]\<rparr>)),
      signalingState = rtc_state,
      remoteDescription = rtc_remote\<rparr>"

definition world0 :: world where
  "world0 =
     \<lparr>timers = [], next_handle = 1, body = [], fetched = [], signals_sent = [],
      actions_sent = [], closed_peers = [], stopped_tracks = [], toasts = [],
      notifications = 0, notification_granted = True, localStorage = []\<rparr>"

definition microphone :: host where
  "microphone =
     \<lparr>hasMediaDevices = True, getUserMedia = Inr [\<lparr>kind = AudioTrack, enabled = True\<rparr>]\<rparr>"

definition example_manager :: "rtc audio_manager" where
  "example_manager =
     \<lparr>audio_manager.sessionId = ''ann'', subGroup = ''General'', apiUrl = ''/api'',
      localStream = Some [\<lparr>kind = AudioTrack, enabled = False\<rparr>],
      peerConnections = [(''bob'', fresh_rtc)],
      audio_manager.isMuted = True, isInitialized = True, audio_manager.pollingInterval = Some 1\<rparr>"

definition example_world :: world where
  "example_world = world0\<lparr>timers := [(1, SignalPoll)], next_handle := 2, body := [''audio-bob'']\<rparr>"

definition bob_answer :: signal where
  "bob_answer =
     \<lparr>sig_from = ''bob'', sig_type = ''answer'',
      sig_data = \<lparr>sdp = Some (Sdp AnswerKind ''answer''), candidate = None\<rparr>\<rparr>"

definition pending_rtc :: rtc where
  "pending_rtc = fresh_rtc\<lparr>rtc_state := HaveLocalOffer, rtc_local := Some (Sdp OfferKind ''offer'')\<rparr>"

definition negotiated_rtc :: rtc where
  "negotiated_rtc = pending_rtc\<lparr>rtc_state := Stable, rtc_remote := Some (Sdp AnswerKind ''answer'')\<rparr>"

definition offered :: "world \<times> rtc audio_manager" where
  "offered = snd (createPeerConnection browser ''bob''
                   (world0, new_AudioManager ''ann'' ''General'' ''/api''))"







text \<open>A participant who joins a queue of three at its end, and the turn that follows.\<close>

definition snapshot :: "nat \<Rightarrow> queue_status" where
  "snapshot n = \<lparr>position = n, totalInQueue = 3, isPosition1 = (n = 1), isPosition2 = (n = 2),
     position1Name = ''Bob'', position2Name = ''Cy''\<rparr>"

definition visitor :: "world \<times> rtc home" where
  "visitor = flush (world0, new_HomePage\<lparr>userRole := Some ''participant'', name := ''Ann'',
      selectedSubGroup := Some ''General''\<rparr>)"

definition queued :: "world \<times> rtc home" where
  "queued = joinQueue microphone (Ok ''s1'') (Ok (snapshot 3)) visitor"

definition joined_first :: "world \<times> rtc home" where
  "joined_first = joinQueue microphone (Ok ''s1'') (Ok (snapshot 1)) visitor"

definition idle :: "world \<times> rtc home" where
  "idle = run [StatusResponse (Ok (snapshot 2)), StatusResponse (Ok (snapshot 1))] queued"

definition reading :: "world \<times> rtc home" where
  "reading = run [ActionClick Start, ActionResponse Start (Ok ())] idle"

definition script :: "event list" where
  "script = [StatusResponse (Ok (snapshot 2)), StatusResponse (Ok (snapshot 1)),
             ActionClick Start, ActionResponse Start (Ok ())]"

definition patience :: "event list" where
  "patience = replicate 9 (TimerFired 3) @
     [StatusResponse (Ok (snapshot 1)), TimerFired 4, StatusResponse NetworkError,
      TimerFired 3, TimerFired 4, AutoSkipResponse NotOk]"

text \<open>A participant of the revision with the countdown, third in the queue.\<close>

definition waiting_p2 :: "(world \<times> rtc home2)" where
  "waiting_p2 = step_p2 (Snapshot (snapshot 3))
     (flush_p2 (world0, new_HomePage_p2\<lparr>home2.sessionId := Some ''s1''\<rparr>))"

section \<open>Stale answers and candidates\<close>

lemma get_pc_stored:
  "map_of (peerConnections am) p = Some pc \<Longrightarrow> get_pc am p = Connection pc"
  by (simp add: get_pc_def)

lemma get_pc_missing:
  "map_of (peerConnections am) p = None \<Longrightarrow> get_pc am p = Inherited \<or> get_pc am p = Undefined"
  by (simp add: get_pc_def)

lemma handleSignal_try_no_connection:
  assumes "sig_type s = ''answer'' \<or> sig_type s = ''ice-candidate''"
    and "map_of (peerConnections am) (sig_from s) = None"
  shows "\<exists>e. handleSignal_try pf s (w, am) = (e, w, am)"
proof -
  have "get_pc am (sig_from s) = Inherited \<or> get_pc am (sig_from s) = Undefined"
    using assms(2) by (rule get_pc_missing)
  then show ?thesis
    using assms(1) by (cases "candidate (sig_data s)") (auto simp: handleSignal_try_def)
qed

text \<open>
  C4. An inbound envelope of kind \<open>answer\<close> or \<open>ice-candidate\<close> whose sender has no
  peer connection leaves the world and the manager exactly as they were (no entry is
  created, nothing is sent or buffered), and no exception escapes \<open>handleSignal\<close>,
  whatever the host's connection operations do.
\<close>

theorem handleSignal_no_connection:
  assumes "sig_type s = ''answer'' \<or> sig_type s = ''ice-candidate''"
    and "map_of (peerConnections am) (sig_from s) = None"
  shows "handleSignal pf s (w, am) = (None, w, am)"
proof -
  obtain e where "handleSignal_try pf s (w, am) = (e, w, am)"
    using handleSignal_try_no_connection [OF assms] by blast
  then show ?thesis by (cases e) (simp_all add: handleSignal_def)
qed

theorem handleSignal_no_connection_witness:
  "handleSignal browser
     \<lparr>sig_from = ''bob'', sig_type = ''answer'',
      sig_data = \<lparr>sdp = Some (Sdp AnswerKind ''answer''), candidate = None\<rparr>\<rparr>
     (world0, new_AudioManager ''ann'' ''General'' ''/api'')
   = (None, world0, new_AudioManager ''ann'' ''General'' ''/api'')"
  by (rule handleSignal_no_connection) (simp_all add: new_AudioManager_def)

section \<open>Teardown\<close>

lemma close_each_timers [simp]: "timers (close_each pcs w) = timers w"
  by (induction pcs arbitrary: w) auto

lemma close_each_stopped [simp]: "stopped_tracks (close_each pcs w) = stopped_tracks w"
  by (induction pcs arbitrary: w) auto

lemma close_each_closed: "closed_peers (close_each pcs w) = closed_peers w @ map fst pcs"
  by (induction pcs arbitrary: w) auto

lemma close_each_body_subset: "set (body (close_each pcs w)) \<subseteq> set (body w)"
proof (induction pcs arbitrary: w)
  case Nil
  then show ?case by simp
next
  case (Cons a pcs)
  obtain p pc where a: "a = (p, pc)" by (cases a)
  have "set (body (close_each (a # pcs) w))
        \<subseteq> set (remove1 (''audio-'' @ p) (body w))"
    using Cons.IH[of "w\<lparr>closed_peers := closed_peers w @ [p], body := remove1 (''audio-'' @ p) (body w)\<rparr>"]
    by (simp add: a)
  also have "\<dots> \<subseteq> set (body w)" by (rule set_remove1_subset)
  finally show ?case .
qed

lemma close_each_body_distinct: "distinct (body w) \<Longrightarrow> distinct (body (close_each pcs w))"
  by (induction pcs arbitrary: w) auto

lemma close_each_detached:
  "distinct (body w) \<Longrightarrow> p \<in> fst ` set pcs \<Longrightarrow> ''audio-'' @ p \<notin> set (body (close_each pcs w))"
proof (induction pcs arbitrary: w)
  case Nil
  then show ?case by simp
next
  case (Cons a pcs)
  obtain q pc where a: "a = (q, pc)" by (cases a)
  let ?w = "w\<lparr>closed_peers := closed_peers w @ [q], body := remove1 (''audio-'' @ q) (body w)\<rparr>"
  have d: "distinct (body ?w)" using Cons.prems(1) by simp
  show ?case
  proof (cases "p = q")
    case True
    have "''audio-'' @ p \<notin> set (body ?w)" using Cons.prems(1) True by simp
    then show ?thesis using close_each_body_subset[of pcs ?w] by (auto simp: a)
  next
    case False
    then have "p \<in> fst ` set pcs" using Cons.prems(2) by (auto simp: a)
    then show ?thesis using Cons.IH[OF d] by (simp add: a)
  qed
qed

lemma cleanup_again: "cleanup (snd (cleanup st)) = cleanup st"
  by (cases st) (simp add: cleanup_def Let_def split: option.splits)

lemma cleanup_fresh: "cleanup (w, new_AudioManager sid sg url) = (None, w, new_AudioManager sid sg url)"
  by (simp add: cleanup_def new_AudioManager_def)

text \<open>
  C9. \<open>cleanup\<close> is idempotent: a second call returns the state of the first and
  raises nothing, and on a manager that was never initialized it changes nothing.
  After it the poll interval is cleared and forgotten, every peer connection of the
  set has been closed, the local tracks have been stopped, the connection set, the
  stream and the initialized flag are reset, and, when the element ids of the document
  are distinct, no audio element of a connected peer is left.
\<close>

theorem cleanup_idempotent:
  "cleanup (snd (cleanup (w, am))) = cleanup (w, am) \<and>
   cleanup (w, new_AudioManager sid sg url) = (None, w, new_AudioManager sid sg url) \<and>
   (case cleanup (w, am) of (e, w', am') \<Rightarrow>
      e = None \<and> audio_manager.pollingInterval am' = None \<and> peerConnections am' = [] \<and>
      localStream am' = None \<and> \<not> isInitialized am' \<and>
      (\<forall>h. audio_manager.pollingInterval am = Some h \<longrightarrow> h \<notin> fst ` set (timers w')) \<and>
      fst ` set (peerConnections am) \<subseteq> set (closed_peers w') \<and>
      set (local_tracks am) \<subseteq> set (stopped_tracks w') \<and>
      (distinct (body w) \<longrightarrow>
         (\<forall>p \<in> fst ` set (peerConnections am). ''audio-'' @ p \<notin> set (body w'))))"
proof -
  have 1: "cleanup (snd (cleanup (w, am))) = cleanup (w, am)" by (rule cleanup_again)
  have 2: "cleanup (w, new_AudioManager sid sg url) = (None, w, new_AudioManager sid sg url)"
    by (rule cleanup_fresh)
  obtain e w' am' where c: "cleanup (w, am) = (e, w', am')" by (cases "cleanup (w, am)")
  define w1 where "w1 = (case audio_manager.pollingInterval am of None \<Rightarrow> w | Some h \<Rightarrow> clearTimer h w)"
  define w2 where "w2 = close_each (peerConnections am) w1"
  have "cleanup (w, am) =
          (None,
           (case localStream am of None \<Rightarrow> w2
            | Some ts \<Rightarrow> w2\<lparr>stopped_tracks := stopped_tracks w2 @ ts\<rparr>),
           am\<lparr>audio_manager.pollingInterval := None, peerConnections := [], localStream := None,
              isInitialized := False\<rparr>)"
    by (simp only: cleanup_def Let_def w1_def w2_def split_conv)
  with c have e: "e = None"
    and w': "w' = (case localStream am of None \<Rightarrow> w2
            | Some ts \<Rightarrow> w2\<lparr>stopped_tracks := stopped_tracks w2 @ ts\<rparr>)"
    and am': "am' = am\<lparr>audio_manager.pollingInterval := None, peerConnections := [], localStream := None,
              isInitialized := False\<rparr>"
    by simp_all
  have bw1: "body w1 = body w" by (simp add: w1_def clearTimer_def split: option.splits)
  have t: "\<forall>h. audio_manager.pollingInterval am = Some h \<longrightarrow> h \<notin> fst ` set (timers w')"
    by (auto simp: w' w2_def w1_def clearTimer_def split: option.splits)
  have cl: "fst ` set (peerConnections am) \<subseteq> set (closed_peers w')"
    by (auto simp: w' w2_def close_each_closed split: option.splits)
  have st: "set (local_tracks am) \<subseteq> set (stopped_tracks w')"
    by (auto simp: w' local_tracks_def split: option.splits)
  have bd: "distinct (body w) \<longrightarrow>
         (\<forall>p \<in> fst ` set (peerConnections am). ''audio-'' @ p \<notin> set (body w'))"
  proof (intro impI ballI)
    fix p assume d: "distinct (body w)" and p: "p \<in> fst ` set (peerConnections am)"
    have "''audio-'' @ p \<notin> set (body w2)"
      unfolding w2_def using close_each_detached[of w1 p "peerConnections am"] d p bw1 by simp
    then show "''audio-'' @ p \<notin> set (body w')" by (simp add: w' split: option.splits)
  qed
  have fin: "audio_manager.pollingInterval am' = None \<and> peerConnections am' = [] \<and>
      localStream am' = None \<and> \<not> isInitialized am'" by (simp add: am')
  show ?thesis
    unfolding c using 1 2 e fin t cl st bd c by simp
qed


theorem cleanup_idempotent_witness:
  "audio_manager.pollingInterval example_manager = Some 1 \<and> distinct (body example_world) \<and>
   ''bob'' \<in> fst ` set (peerConnections example_manager) \<and>
   (case cleanup (example_world, example_manager) of (e, w', am') \<Rightarrow>
      1 \<notin> fst ` set (timers w') \<and> ''audio-bob'' \<notin> set (body w') \<and>
      ''bob'' \<in> set (closed_peers w'))"
  using cleanup_idempotent [where w = example_world and am = example_manager
      and sid = "''ann''" and sg = "''General''" and url = "''/api''"]
  by (simp add: example_world_def example_manager_def world0_def cleanup_def clearTimer_def
        new_AudioManager_def local_tracks_def)

section \<open>Initialization\<close>

lemma set_enabled_audio:
  "t \<in> set (set_enabled v ts) \<Longrightarrow> kind t = AudioTrack \<Longrightarrow> enabled t = v"
  by (auto simp: set_enabled_def split: if_splits)

text \<open>
  C8. For every \<open>startMuted\<close>: when the host has no \<open>mediaDevices.getUserMedia\<close> or the
  capture request is rejected, \<open>initialize\<close> returns \<open>false\<close>, raises nothing and leaves
  the state as it was; when capture succeeds it returns \<open>true\<close>, every audio track of the
  stream has \<open>enabled\<close> equal to the negation of \<open>startMuted\<close>, the signal poll interval
  is registered and the roster request is issued.
\<close>

theorem initialize_result:
  "((\<not> hasMediaDevices hst \<or> (\<exists>e. getUserMedia hst = Inl e)) \<longrightarrow>
      initialize hst startMuted (w, am) = (None, False, w, am)) \<and>
   (hasMediaDevices hst \<and> getUserMedia hst = Inr stream \<longrightarrow>
      (case initialize hst startMuted (w, am) of (e, ok, w', am') \<Rightarrow>
         e = None \<and> ok \<and>
         localStream am' = Some (set_enabled (\<not> startMuted) stream) \<and>
         (\<forall>t \<in> set (local_tracks am'). kind t = AudioTrack \<longrightarrow> enabled t = (\<not> startMuted)) \<and>
         audio_manager.isMuted am' = startMuted \<and> isInitialized am' \<and>
         audio_manager.pollingInterval am' = Some (next_handle w) \<and>
         timers w' = timers w @ [(next_handle w, SignalPoll)] \<and>
         fetched w' = fetched w @ [''/webrtc/peers'']))"
  by (auto simp: initialize_def startSignalPolling_def setTimer_def local_tracks_def
        set_enabled_audio)

theorem initialize_result_witness:
  "initialize (microphone\<lparr>getUserMedia := Inl (Thrown ''NotAllowedError'')\<rparr>) True
     (world0, new_AudioManager ''ann'' ''General'' ''/api'')
     = (None, False, world0, new_AudioManager ''ann'' ''General'' ''/api'') \<and>
   (case initialize microphone False (world0, new_AudioManager ''ann'' ''General'' ''/api'' :: rtc audio_manager) of
      (e, ok, w', am') \<Rightarrow>
        ok \<and> localStream am' = Some [\<lparr>kind = AudioTrack, enabled = True\<rparr>] \<and>
        timers w' = [(1, SignalPoll)])"
  using initialize_result [where hst = "microphone\<lparr>getUserMedia := Inl (Thrown ''NotAllowedError'')\<rparr>"
          and startMuted = True and w = world0
          and am = "new_AudioManager ''ann'' ''General'' ''/api'' :: rtc audio_manager"
          and stream = "[]"]
    initialize_result [where hst = microphone
          and stream = "[\<lparr>kind = AudioTrack, enabled = True\<rparr>]" and startMuted = False
          and w = world0
          and am = "new_AudioManager ''ann'' ''General'' ''/api'' :: rtc audio_manager"]
  by (simp add: microphone_def world0_def set_enabled_def initialize_def startSignalPolling_def
        setTimer_def new_AudioManager_def local_tracks_def)

section \<open>Roster discovery\<close>





lemma store_pc_fields [simp]:
  "audio_manager.sessionId (store_pc p pc am) = audio_manager.sessionId am"
  "local_tracks (store_pc p pc am) = local_tracks am"
  by (simp_all add: store_pc_def local_tracks_def)

lemma store_each_Nil [simp]: "store_each [] pc am = am"
  by (simp add: store_each_def)

lemma store_each_Cons [simp]: "store_each (p # ps) pc am = store_each ps pc (store_pc p pc am)"
  by (simp add: store_each_def)























section \<open>Answers\<close>

lemma handle_each_replicate_fix:
  assumes "handleSignal pf s st = (None, st)"
  shows "handle_each pf (replicate n s) st = st"
  by (induction n) (simp_all add: assms)

text \<open>
  C7. Let the host accept a remote answer on a connection whose local offer is pending
  (the connection becomes stable, with that remote description) and reject one on a
  stable connection. Then, for a peer \<open>P\<close> with an offer pending, the first answer
  envelope from \<open>P\<close> commits the remote description, and any number of repetitions of
  the envelope leave the world and the manager as they are; no call raises.
\<close>

theorem answer_commits_once:
  assumes accept: "\<And>pc d. signalingState pf pc = HaveLocalOffer \<Longrightarrow>
             \<exists>pc'. setRemoteDescription pf pc (Sdp AnswerKind d) = Inr pc' \<and>
                   signalingState pf pc' = Stable \<and>
                   remoteDescription pf pc' = Some (Sdp AnswerKind d)"
    and reject: "\<And>pc d. signalingState pf pc = Stable \<Longrightarrow>
             \<exists>e. setRemoteDescription pf pc (Sdp AnswerKind d) = Inl e"
    and pending: "map_of (peerConnections am) P = Some pc" "signalingState pf pc = HaveLocalOffer"
    and answer: "sig_from s = P" "sig_type s = ''answer''"
                "sdp (sig_data s) = Some (Sdp AnswerKind d)"
  shows "\<exists>pc'. handleSignal pf s (w, am) = (None, w, store_pc P pc' am) \<and>
           map_of (peerConnections (store_pc P pc' am)) P = Some pc' \<and>
           signalingState pf pc' = Stable \<and>
           remoteDescription pf pc' = Some (Sdp AnswerKind d) \<and>
           (\<forall>n. handle_each pf (replicate n s) (w, store_pc P pc' am) = (w, store_pc P pc' am))"
proof -
  obtain pc' where srd: "setRemoteDescription pf pc (Sdp AnswerKind d) = Inr pc'"
    and st: "signalingState pf pc' = Stable"
    and rd: "remoteDescription pf pc' = Some (Sdp AnswerKind d)"
    using accept[OF pending(2)] by blast
  have first: "handleSignal pf s (w, am) = (None, w, store_pc P pc' am)"
    using get_pc_stored [OF pending(1)] answer srd
    by (simp add: handleSignal_def handleSignal_try_def newRTCSessionDescription_def)
  have look: "map_of (peerConnections (store_pc P pc' am)) P = Some pc'"
    by (simp add: store_pc_def AList.update_conv')
  obtain e where rej: "setRemoteDescription pf pc' (Sdp AnswerKind d) = Inl e"
    using reject[OF st] by blast
  have dup: "handleSignal pf s (w, store_pc P pc' am) = (None, w, store_pc P pc' am)"
    using get_pc_stored [OF look] answer rej
    by (simp add: handleSignal_def handleSignal_try_def newRTCSessionDescription_def)
  have "\<forall>n. handle_each pf (replicate n s) (w, store_pc P pc' am) = (w, store_pc P pc' am)"
    using handle_each_replicate_fix[OF dup] by simp
  with first look st rd show ?thesis by blast
qed


theorem answer_commits_once_witness:
  "map_of (peerConnections (snd offered)) ''bob'' = Some pending_rtc \<and>
   signalingState browser pending_rtc = HaveLocalOffer \<and>
   handleSignal browser bob_answer offered
     = (None, fst offered, store_pc ''bob'' negotiated_rtc (snd offered)) \<and>
   signalingState browser negotiated_rtc = Stable \<and>
   remoteDescription browser negotiated_rtc = Some (Sdp AnswerKind ''answer'') \<and>
   handle_each browser (replicate 3 bob_answer)
       (fst offered, store_pc ''bob'' negotiated_rtc (snd offered))
     = (fst offered, store_pc ''bob'' negotiated_rtc (snd offered))"
proof -
  have a: "\<And>pc d. signalingState browser pc = HaveLocalOffer \<Longrightarrow>
             \<exists>pc'. setRemoteDescription browser pc (Sdp AnswerKind d) = Inr pc' \<and>
                   signalingState browser pc' = Stable \<and>
                   remoteDescription browser pc' = Some (Sdp AnswerKind d)"
    by (simp add: browser_def rtc_setRemoteDescription_def)
  have r: "\<And>pc d. signalingState browser pc = Stable \<Longrightarrow>
             \<exists>e. setRemoteDescription browser pc (Sdp AnswerKind d) = Inl e"
    by (simp add: browser_def rtc_setRemoteDescription_def)
  have o: "offered = (world0\<lparr>signals_sent := [\<lparr>fromSessionId = ''ann'', toSessionId = ''bob'',
                 env_type = ''offer'',
                 env_data = \<lparr>sdp = Some (Sdp OfferKind ''offer''), candidate = None\<rparr>\<rparr>]\<rparr>,
             store_pc ''bob'' pending_rtc (new_AudioManager ''ann'' ''General'' ''/api''))"
    by (simp add: offered_def createPeerConnection_def createPeerConnection_try_def browser_def
          new_AudioManager_def local_tracks_def rtc_setLocalDescription_def sendSignal_def
          store_pc_def world0_def pending_rtc_def fresh_rtc_def)
  have p1: "map_of (peerConnections (snd offered)) ''bob'' = Some pending_rtc"
    by (simp add: o store_pc_def new_AudioManager_def)
  have p2: "signalingState browser pending_rtc = HaveLocalOffer"
    by (simp add: browser_def pending_rtc_def)
  obtain pc' where
    f: "handleSignal browser bob_answer (fst offered, snd offered)
          = (None, fst offered, store_pc ''bob'' pc' (snd offered))"
    and l: "map_of (peerConnections (store_pc ''bob'' pc' (snd offered))) ''bob'' = Some pc'"
    and s: "signalingState browser pc' = Stable"
    and d: "remoteDescription browser pc' = Some (Sdp AnswerKind ''answer'')"
    and n: "\<forall>n. handle_each browser (replicate n bob_answer)
                  (fst offered, store_pc ''bob'' pc' (snd offered))
              = (fst offered, store_pc ''bob'' pc' (snd offered))"
    using answer_commits_once [OF a r p1 p2, where s = bob_answer and d = "''answer''"
        and w = "fst offered"]
    by (auto simp: bob_answer_def)
  have "handleSignal browser bob_answer (fst offered, snd offered)
          = (None, fst offered, store_pc ''bob'' negotiated_rtc (snd offered))"
    unfolding o
    by (simp add: handleSignal_def handleSignal_try_def get_pc_def bob_answer_def store_pc_def
          new_AudioManager_def newRTCSessionDescription_def browser_def
          rtc_setRemoteDescription_def pending_rtc_def negotiated_rtc_def)
  with f have "store_pc ''bob'' pc' (snd offered) = store_pc ''bob'' negotiated_rtc (snd offered)"
    by simp
  then have "map_of (peerConnections (store_pc ''bob'' pc' (snd offered))) ''bob''
             = map_of (peerConnections (store_pc ''bob'' negotiated_rtc (snd offered))) ''bob''"
    by simp
  then have "pc' = negotiated_rtc" by (simp add: store_pc_def AList.update_conv')
  with f s d n p1 p2 show ?thesis by simp
qed

section \<open>Actions that fail\<close>

lemma render_settled: "settled h \<Longrightarrow> render (w, h) = (w, h)"
  by (simp add: settled_def render_def)

lemma flush_settled: "settled h \<Longrightarrow> flush (w, h) = (w, h)"
  by (simp add: flush_def render_settled)

lemma clear_ref_timers: "set (timers (clear_ref r w)) \<subseteq> set (timers w)"
  by (auto simp: clear_ref_def clearTimer_def split: option.splits)

lemma clear_ref_gone: "r = Some k \<Longrightarrow> k \<notin> fst ` set (timers (clear_ref r w))"
  by (auto simp: clear_ref_def clearTimer_def)

lemma clear_ref_gone2: "k \<notin> fst ` set (timers w) \<Longrightarrow> k \<notin> fst ` set (timers (clear_ref r w))"
  using clear_ref_timers[of r w] by auto

lemma mute_muted: "audio_manager.isMuted (mute am)"
  by (simp add: mute_def toggleMute_def getMuteState_def)

lemma toggleMute_tracks: "tracks_follow (snd (toggleMute am))"
proof (cases "localStream am")
  case None
  then show ?thesis by (simp add: toggleMute_def tracks_follow_def local_tracks_def)
next
  case (Some ts)
  then show ?thesis
    using set_enabled_audio[of _ "audio_manager.isMuted am" ts]
    by (auto simp: toggleMute_def tracks_follow_def local_tracks_def)
qed

lemma mute_tracks: "tracks_follow am \<Longrightarrow> tracks_follow (mute am)"
  by (simp add: mute_def toggleMute_tracks)

lemma unmute_tracks: "tracks_follow am \<Longrightarrow> tracks_follow (unmute am)"
  by (simp add: unmute_def toggleMute_tracks)

lemma unmute_unmuted: "\<not> audio_manager.isMuted (unmute am)"
  by (simp add: unmute_def toggleMute_def getMuteState_def)

text \<open>
  C10. For \<open>skip\<close> and \<open>finish\<close> with a session, the code of \<open>handleAction\<close> before the
  request cancels both auto-skip timers, forgets their handles, and mutes the manager
  and its audio tracks; the request is sent from that state. When the request fails
  (a response that is not ok, or a network error) the result is that same state with
  an error toast: nothing is rolled back, no timer is armed again, and the renders that
  follow arm none either.
\<close>

theorem handleAction_failure_not_rolled_back:
  assumes "a = Skip \<or> a = Finish" and "sessionId h = Some sid" and "sid \<noteq> []"
    and "r = NotOk \<or> r = NetworkError"
  shows "(case handleAction_prepare a (w, h) of (w1, h1) \<Rightarrow>
            autoSkipTimeout h1 = None \<and> timerInterval h1 = None \<and>
            set (timers w1) \<subseteq> set (timers w) \<and>
            (\<forall>k. autoSkipTimeout h = Some k \<or> timerInterval h = Some k \<longrightarrow>
                 k \<notin> fst ` set (timers w1)) \<and>
            (\<forall>am. audioManager h = Some am \<longrightarrow>
                 isMuted h1 \<and> audioManager h1 = Some (mute am) \<and>
                 audio_manager.isMuted (mute am) \<and>
                 (tracks_follow am \<longrightarrow>
                    (\<forall>t \<in> set (local_tracks (mute am)). kind t = AudioTrack \<longrightarrow> \<not> enabled t))) \<and>
            handleAction_request a (w, h) = (w1\<lparr>actions_sent := actions_sent w @ [(sid, a)]\<rparr>, h1) \<and>
            handleAction a r (w, h) =
              (showToast ''Failed to process action'' (w1\<lparr>actions_sent := actions_sent w @ [(sid, a)]\<rparr>), h1) \<and>
            (settled h \<longrightarrow> flush (handleAction a r (w, h)) = handleAction a r (w, h)))"
proof -
  obtain w1 h1 where p: "handleAction_prepare a (w, h) = (w1, h1)"
    by (cases "handleAction_prepare a (w, h)")
  have w1: "w1 = clear_ref (timerInterval h) (clear_ref (autoSkipTimeout h) w)"
    using p by (auto simp: handleAction_prepare_def Let_def split: option.splits if_splits)
  have refs: "autoSkipTimeout h1 = None \<and> timerInterval h1 = None"
    using p by (auto simp: handleAction_prepare_def Let_def split: option.splits if_splits)
  have sub: "set (timers w1) \<subseteq> set (timers w)"
    unfolding w1 using clear_ref_timers by blast
  have gone: "\<forall>k. autoSkipTimeout h = Some k \<or> timerInterval h = Some k \<longrightarrow>
                 k \<notin> fst ` set (timers w1)"
    unfolding w1 using clear_ref_gone clear_ref_gone2 by metis
  have muted: "\<forall>am. audioManager h = Some am \<longrightarrow>
                 isMuted h1 \<and> audioManager h1 = Some (mute am) \<and>
                 audio_manager.isMuted (mute am) \<and>
                 (tracks_follow am \<longrightarrow>
                    (\<forall>t \<in> set (local_tracks (mute am)). kind t = AudioTrack \<longrightarrow> \<not> enabled t))"
  proof (intro allI impI)
    fix am assume am: "audioManager h = Some am"
    have 1: "isMuted h1 \<and> audioManager h1 = Some (mute am)"
      using p am assms(1) by (auto simp: handleAction_prepare_def Let_def)
    have 2: "tracks_follow am \<longrightarrow>
                    (\<forall>t \<in> set (local_tracks (mute am)). kind t = AudioTrack \<longrightarrow> \<not> enabled t)"
      using mute_tracks[of am] mute_muted[of am] by (auto simp: tracks_follow_def)
    show "isMuted h1 \<and> audioManager h1 = Some (mute am) \<and>
                 audio_manager.isMuted (mute am) \<and>
                 (tracks_follow am \<longrightarrow>
                    (\<forall>t \<in> set (local_tracks (mute am)). kind t = AudioTrack \<longrightarrow> \<not> enabled t))"
      using 1 2 mute_muted by blast
  qed
  have aw: "actions_sent w1 = actions_sent w"
    by (simp add: w1 clear_ref_def clearTimer_def split: option.splits)
  have req: "handleAction_request a (w, h) = (w1\<lparr>actions_sent := actions_sent w @ [(sid, a)]\<rparr>, h1)"
    using assms(2,3) by (simp add: handleAction_request_def p aw)
  have res: "handleAction a r (w, h) =
              (showToast ''Failed to process action'' (w1\<lparr>actions_sent := actions_sent w @ [(sid, a)]\<rparr>), h1)"
    using assms(2,3,4) by (auto simp: handleAction_def req truthy_def handleAction_response_def)
  have deps: "polling_deps h1 = polling_deps h \<and> position_deps h1 = position_deps h \<and>
     polling_effect_deps h1 = polling_effect_deps h \<and> position_effect_deps h1 = position_effect_deps h"
    using p by (auto simp: handleAction_prepare_def Let_def polling_effect_deps_def
         position_effect_deps_def split: option.splits if_splits)
  have fl: "settled h \<longrightarrow> flush (handleAction a r (w, h)) = handleAction a r (w, h)"
    using deps by (simp add: res flush_settled settled_def)
  show ?thesis unfolding p using refs sub gone muted req res fl by simp
qed

theorem handleAction_failure_not_rolled_back_witness:
  "sessionId (snd idle) = Some ''s1'' \<and> autoSkipTimeout (snd idle) = Some 4 \<and>
   timerInterval (snd idle) = Some 3 \<and>
   timers (fst idle) =
     [(1, QueuePoll), (2, SignalPoll), (3, Countdown 10), (4, AutoSkip False (Some ''s1''))] \<and>
   (case handleAction Skip NotOk idle of (w', h') \<Rightarrow>
      autoSkipTimeout h' = None \<and> timerInterval h' = None \<and>
      timers w' = [(1, QueuePoll), (2, SignalPoll)] \<and> isMuted h' \<and>
      actions_sent w' = [(''s1'', Skip)]) \<and>
   settled (snd reading) \<and> \<not> isMuted (snd reading) \<and>
   isMuted (snd (flush (handleAction Finish NetworkError reading)))"
proof -
  have s: "sessionId (snd idle) = Some ''s1''" "sessionId (snd reading) = Some ''s1''"
    by code_simp+
  have n: "''s1'' \<noteq> []" by simp
  note t1 = handleAction_failure_not_rolled_back [where a = Skip and r = NotOk and w = "fst idle"
      and h = "snd idle", OF _ s(1) n]
  note t2 = handleAction_failure_not_rolled_back [where a = Finish and r = NetworkError
      and w = "fst reading" and h = "snd reading", OF _ s(2) n]
  have e: "autoSkipTimeout (snd idle) = Some 4 \<and>
   timerInterval (snd idle) = Some 3 \<and>
   timers (fst idle) =
     [(1, QueuePoll), (2, SignalPoll), (3, Countdown 10), (4, AutoSkip False (Some ''s1''))] \<and>
   (case handleAction Skip NotOk idle of (w', h') \<Rightarrow>
      autoSkipTimeout h' = None \<and> timerInterval h' = None \<and>
      timers w' = [(1, QueuePoll), (2, SignalPoll)] \<and> isMuted h' \<and>
      actions_sent w' = [(''s1'', Skip)]) \<and>
   settled (snd reading) \<and> \<not> isMuted (snd reading) \<and>
   isMuted (snd (flush (handleAction Finish NetworkError reading)))"
    by code_simp
  show ?thesis using s e t1 t2 by simp
qed

section \<open>The mute flag and the turn\<close>

lemma startAutoSkipTimer_fields:
  "hasStartedReading (snd (startAutoSkipTimer (w, h))) = hasStartedReading h"
  "wasPosition2 (snd (startAutoSkipTimer (w, h))) = wasPosition2 h"
  "queueStatus (snd (startAutoSkipTimer (w, h))) = queueStatus h"
  "sessionId (snd (startAutoSkipTimer (w, h))) = sessionId h"
  "hasJoined (snd (startAutoSkipTimer (w, h))) = hasJoined h"
  "isMuted (snd (startAutoSkipTimer (w, h))) = isMuted h"
  "audioManager (snd (startAutoSkipTimer (w, h))) = audioManager h"
  "polling_deps (snd (startAutoSkipTimer (w, h))) = polling_deps h"
  "position_deps (snd (startAutoSkipTimer (w, h))) = position_deps h"
  by (simp_all add: startAutoSkipTimer_def setTimer_def split_beta)

lemma position_effect_fields:
  "hasStartedReading (snd (position_effect (w, h))) = (at_position1 h \<and> hasStartedReading h)"
  "wasPosition2 (snd (position_effect (w, h))) =
     (if at_position1 h then at_position2 h else (wasPosition2 h \<or> at_position2 h))"
  "queueStatus (snd (position_effect (w, h))) = queueStatus h"
  "sessionId (snd (position_effect (w, h))) = sessionId h"
  "hasJoined (snd (position_effect (w, h))) = hasJoined h"
  "polling_deps (snd (position_effect (w, h))) = polling_deps h"
  "position_deps (snd (position_effect (w, h))) = position_deps h"
  "isMuted (snd (position_effect (w, h))) =
     (if at_position1 h then isMuted h
      else (audioManager h \<noteq> None \<and> queueStatus h \<noteq> None) \<or> isMuted h)"
  "audioManager (snd (position_effect (w, h))) =
     (if at_position1 h \<or> queueStatus h = None then audioManager h
      else map_option mute (audioManager h))"
  by (auto simp: position_effect_def Let_def split_beta startAutoSkipTimer_fields
        split: option.splits)

lemma polling_effect_fields:
  "hasStartedReading (snd (polling_effect (w, h))) = hasStartedReading h"
  "wasPosition2 (snd (polling_effect (w, h))) = wasPosition2 h"
  "queueStatus (snd (polling_effect (w, h))) = queueStatus h"
  "sessionId (snd (polling_effect (w, h))) = sessionId h"
  "hasJoined (snd (polling_effect (w, h))) = hasJoined h"
  "isMuted (snd (polling_effect (w, h))) = isMuted h"
  "audioManager (snd (polling_effect (w, h))) = audioManager h"
  "polling_deps (snd (polling_effect (w, h))) = polling_deps h"
  "position_deps (snd (polling_effect (w, h))) = position_deps h"
  "autoSkipTimeout (snd (polling_effect (w, h))) = autoSkipTimeout h"
  "timerInterval (snd (polling_effect (w, h))) = timerInterval h"
  by (simp_all add: polling_effect_def startPolling_def setTimer_def split_beta)

lemma at_position_upd [simp]:
  "at_position1 (h\<lparr>position_deps := d\<rparr>) = at_position1 h"
  "at_position2 (h\<lparr>position_deps := d\<rparr>) = at_position2 h"
  "at_position1 (h\<lparr>polling_deps := e\<rparr>) = at_position1 h"
  "at_position2 (h\<lparr>polling_deps := e\<rparr>) = at_position2 h"
  by (simp_all add: at_position1_def at_position2_def)

lemma at_position_polling [simp]:
  "at_position1 (snd (polling_effect (w, h))) = at_position1 h"
  "at_position2 (snd (polling_effect (w, h))) = at_position2 h"
  by (simp_all add: at_position1_def at_position2_def polling_effect_fields)

lemma render_fields:
  "hasStartedReading (snd (render (w, h))) =
     (if due h then at_position1 h \<and> hasStartedReading h else hasStartedReading h)"
  "wasPosition2 (snd (render (w, h))) =
     (if due h then (if at_position1 h then at_position2 h else (wasPosition2 h \<or> at_position2 h))
      else wasPosition2 h)"
  "queueStatus (snd (render (w, h))) = queueStatus h"
  "sessionId (snd (render (w, h))) = sessionId h"
  "hasJoined (snd (render (w, h))) = hasJoined h"
  "polling_deps (snd (render (w, h))) = Some (polling_effect_deps h)"
  "position_deps (snd (render (w, h))) = Some (position_effect_deps h)"
  "isMuted (snd (render (w, h))) =
     (if due h \<and> \<not> at_position1 h
      then (audioManager h \<noteq> None \<and> queueStatus h \<noteq> None) \<or> isMuted h
      else isMuted h)"
  "audioManager (snd (render (w, h))) =
     (if due h \<and> \<not> at_position1 h \<and> queueStatus h \<noteq> None
      then map_option mute (audioManager h) else audioManager h)"
  by (auto simp: render_def due_def split_beta position_effect_fields polling_effect_fields)

lemma at_position_render [simp]:
  "at_position1 (snd (render (w, h))) = at_position1 h"
  "at_position2 (snd (render (w, h))) = at_position2 h"
  by (simp_all add: at_position1_def at_position2_def render_fields)

lemma render_snd: "render st = (fst (render st), snd (render st))"
  by simp

lemma flush_is_settled: "settled (snd (flush st))"
proof -
  obtain w h where st: "st = (w, h)" by (cases st)
  obtain w1 h1 where r1: "render (w, h) = (w1, h1)" by (cases "render (w, h)")
  have h1: "h1 = snd (render (w, h))" by (simp add: r1)
  have p: "position_effect_deps (snd (render (w1, h1))) = position_effect_deps h1"
    unfolding h1
    by (auto simp: position_effect_deps_def render_fields due_def)
  have q: "polling_effect_deps (snd (render (w1, h1))) = polling_effect_deps h1"
    by (simp add: polling_effect_deps_def render_fields)
  show ?thesis
    by (simp add: st flush_def r1 settled_def render_fields p q)
qed

lemma coherent_facts:
  assumes "coherent h"
  shows "audioManager h = None \<Longrightarrow> isMuted h"
    and "audioManager h \<noteq> None \<Longrightarrow> queueStatus h \<noteq> None"
  using assms by (auto simp: coherent_def split: option.splits)

lemma coherent_render:
  assumes "coherent h"
  shows "coherent (snd (render (w, h)))"
proof (cases "due h \<and> \<not> at_position1 h \<and> queueStatus h \<noteq> None")
  case True
  then have a: "audioManager (snd (render (w, h))) = map_option mute (audioManager h)"
    and m: "isMuted (snd (render (w, h))) = (audioManager h \<noteq> None \<or> isMuted h)"
    and q: "queueStatus (snd (render (w, h))) = queueStatus h"
    by (simp_all add: render_fields)
  show ?thesis using assms
    by (cases "audioManager h") (simp_all add: coherent_def a m q mute_muted mute_tracks)
next
  case False
  then have a: "audioManager (snd (render (w, h))) = audioManager h"
    and m: "isMuted (snd (render (w, h))) = isMuted h"
    and q: "queueStatus (snd (render (w, h))) = queueStatus h"
    by (auto simp: render_fields)
  show ?thesis using assms
    by (cases "audioManager h") (simp_all add: coherent_def a m q)
qed

lemma render_pending:
  assumes "pending_inv h"
  shows "coherent (snd (render (w, h))) \<and> muted_unless_reading (snd (render (w, h)))"
proof -
  have c: "coherent h" and m: "\<not> isMuted h \<longrightarrow> hasStartedReading h"
    and d: "hasStartedReading h \<and> \<not> at_position1 h \<longrightarrow> due h"
    using assms by (simp_all add: pending_inv_def)
  have c1: "audioManager h = None \<longrightarrow> isMuted h"
    and c2: "audioManager h \<noteq> None \<longrightarrow> queueStatus h \<noteq> None"
    using coherent_facts[OF c] by blast+
  have hs: "hasStartedReading (snd (render (w, h))) =
     (if due h then at_position1 h \<and> hasStartedReading h else hasStartedReading h)"
    and mu: "isMuted (snd (render (w, h))) =
     (if due h \<and> \<not> at_position1 h
      then (audioManager h \<noteq> None \<and> queueStatus h \<noteq> None) \<or> isMuted h
      else isMuted h)"
    and p1: "at_position1 (snd (render (w, h))) = at_position1 h"
    by (simp_all only: render_fields at_position_render)
  have "muted_unless_reading (snd (render (w, h)))"
    unfolding muted_unless_reading_def hs mu p1
    using m d c1 c2 by (cases "due h"; cases "at_position1 h"; cases "audioManager h = None"; simp)
  then show ?thesis using coherent_render[OF c] by simp
qed

lemma render_keeps:
  assumes "coherent h" "muted_unless_reading h"
  shows "coherent (snd (render (w, h))) \<and> muted_unless_reading (snd (render (w, h)))"
proof -
  have "pending_inv h"
    using assms by (auto simp: pending_inv_def muted_unless_reading_def)
  then show ?thesis by (rule render_pending)
qed

lemma flush_pending:
  assumes "pending_inv h"
  shows "turn_inv (snd (flush (w, h)))"
proof -
  obtain w1 h1 where r1: "render (w, h) = (w1, h1)" by (cases "render (w, h)")
  have "coherent h1 \<and> muted_unless_reading h1"
    using render_pending[OF assms, of w] by (simp add: r1)
  then have "coherent (snd (render (w1, h1))) \<and> muted_unless_reading (snd (render (w1, h1)))"
    using render_keeps by blast
  then show ?thesis
    using flush_is_settled[of "(w, h)"] by (simp add: turn_inv_def flush_def r1)
qed

lemma turn_inv_pending: "turn_inv h \<Longrightarrow> pending_inv h"
  by (auto simp: turn_inv_def pending_inv_def muted_unless_reading_def)

lemma cleanup_no_exn: "fst (cleanup st) = None"
  by (simp add: cleanup_def Let_def split_beta)

lemma handleSessionEnd_fields:
  "audioManager (snd (snd (handleSessionEnd (w, h)))) = None"
  "isMuted (snd (snd (handleSessionEnd (w, h))))"
  "\<not> hasStartedReading (snd (snd (handleSessionEnd (w, h))))"
  "queueStatus (snd (snd (handleSessionEnd (w, h)))) = None"
  "sessionId (snd (snd (handleSessionEnd (w, h)))) = None"
  "\<not> hasJoined (snd (snd (handleSessionEnd (w, h))))"
  "userRole (snd (snd (handleSessionEnd (w, h)))) = None"
  "name (snd (snd (handleSessionEnd (w, h)))) = []"
  "\<not> audioInitialized (snd (snd (handleSessionEnd (w, h))))"
  "fst (handleSessionEnd (w, h)) = None"
  using cleanup_no_exn
  by (auto simp: handleSessionEnd_def Let_def cleanup_def split: option.splits prod.splits)

lemma status_response_pending:
  assumes "turn_inv h"
  shows "pending_inv (snd (snd (snd (fetchQueueStatus_response r (w, h)))))"
proof (cases r)
  case NetworkError
  then show ?thesis using turn_inv_pending[OF assms] by (simp add: fetchQueueStatus_response_def)
next
  case NotOk
  then show ?thesis
    by (simp add: fetchQueueStatus_response_def split_beta pending_inv_def coherent_def
          handleSessionEnd_fields)
next
  case (Ok q)
  have "position_deps h = Some (position_effect_deps h)"
    using assms by (simp add: turn_inv_def settled_def)
  then show ?thesis using assms Ok
    by (auto simp: fetchQueueStatus_response_def pending_inv_def turn_inv_def coherent_def
          muted_unless_reading_def due_def position_effect_deps_def at_position1_def
          split: option.splits)
qed

lemma pending_inv_frame:
  assumes "audioManager h' = audioManager h" "isMuted h' = isMuted h"
    "queueStatus h' = queueStatus h" "hasStartedReading h' = hasStartedReading h"
    "position_deps h' = position_deps h" "wasPosition2 h' = wasPosition2 h"
    "sessionId h' = sessionId h"
  shows "pending_inv h' = pending_inv h"
  using assms
  by (cases "audioManager h")
     (simp_all add: pending_inv_def coherent_def due_def position_effect_deps_def at_position1_def)

lemma handleAction_request_fields:
  "queueStatus (snd (handleAction_request a (w, h))) = queueStatus h"
  "hasStartedReading (snd (handleAction_request a (w, h))) = hasStartedReading h"
  "position_deps (snd (handleAction_request a (w, h))) = position_deps h"
  "polling_deps (snd (handleAction_request a (w, h))) = polling_deps h"
  "wasPosition2 (snd (handleAction_request a (w, h))) = wasPosition2 h"
  "sessionId (snd (handleAction_request a (w, h))) = sessionId h"
  "hasJoined (snd (handleAction_request a (w, h))) = hasJoined h"
  "audioManager (snd (handleAction_request a (w, h))) =
     (if truthy (sessionId h) \<and> (a = Skip \<or> a = Finish) then map_option mute (audioManager h)
      else audioManager h)"
  "isMuted (snd (handleAction_request a (w, h))) =
     (if truthy (sessionId h) \<and> (a = Skip \<or> a = Finish) \<and> audioManager h \<noteq> None then True
      else isMuted h)"
  by (simp_all add: handleAction_request_def handleAction_prepare_def Let_def split_beta truthy_def
        split: option.splits)

lemma action_request_pending:
  assumes "turn_inv h"
  shows "pending_inv (snd (handleAction_request a (w, h)))"
proof (cases "truthy (sessionId h) \<and> (a = Skip \<or> a = Finish) \<and> audioManager h \<noteq> None")
  case True
  then obtain am where am: "audioManager h = Some am" by auto
  have c: "coherent h" and m: "\<not> isMuted h \<longrightarrow> hasStartedReading h"
    and d: "hasStartedReading h \<and> \<not> at_position1 h \<longrightarrow> due h"
    using turn_inv_pending[OF assms] by (simp_all add: pending_inv_def)
  show ?thesis
    using True am c d
    by (simp add: pending_inv_def coherent_def due_def position_effect_deps_def at_position1_def
          handleAction_request_fields mute_muted mute_tracks)
next
  case False
  have "pending_inv (snd (handleAction_request a (w, h))) = pending_inv h"
    using False by (intro pending_inv_frame) (auto simp: handleAction_request_fields)
  then show ?thesis using turn_inv_pending[OF assms] by simp
qed

lemma handleAction_response_fields:
  "queueStatus (snd (handleAction_response a r (w, h))) = queueStatus h"
  "position_deps (snd (handleAction_response a r (w, h))) = position_deps h"
  "polling_deps (snd (handleAction_response a r (w, h))) = polling_deps h"
  "wasPosition2 (snd (handleAction_response a r (w, h))) = wasPosition2 h"
  "sessionId (snd (handleAction_response a r (w, h))) = sessionId h"
  "hasJoined (snd (handleAction_response a r (w, h))) = hasJoined h"
  "hasStartedReading (snd (handleAction_response a r (w, h))) =
     (if a = Start \<and> r = Ok () then True else hasStartedReading h)"
  "audioManager (snd (handleAction_response a r (w, h))) =
     (if a = Start \<and> r = Ok () then map_option unmute (audioManager h) else audioManager h)"
  "isMuted (snd (handleAction_response a r (w, h))) =
     (if a = Start \<and> r = Ok () \<and> audioManager h \<noteq> None then False else isMuted h)"
  by (cases r; cases a;
      simp add: handleAction_response_def fetchQueueStatus_request_def split_beta
        split: option.splits)+

lemma action_response_pending:
  assumes "turn_inv h"
  shows "pending_inv (snd (handleAction_response a r (w, h)))"
proof (cases "a = Start \<and> r = Ok ()")
  case True
  have s: "position_deps h = Some (position_effect_deps h)"
    and c: "coherent h" and m: "muted_unless_reading h"
    using assms by (simp_all add: turn_inv_def settled_def)
  show ?thesis
  proof (cases "audioManager h")
    case None
    then show ?thesis using True s c m
      by (auto simp: pending_inv_def coherent_def due_def position_effect_deps_def
            at_position1_def muted_unless_reading_def handleAction_response_fields)
  next
    case (Some am)
    then show ?thesis using True s c m
      by (auto simp: pending_inv_def coherent_def due_def position_effect_deps_def
            at_position1_def muted_unless_reading_def handleAction_response_fields
            unmute_unmuted unmute_tracks)
  qed
next
  case False
  have "pending_inv (snd (handleAction_response a r (w, h))) = pending_inv h"
    using False by (intro pending_inv_frame) (auto simp: handleAction_response_fields)
  then show ?thesis using turn_inv_pending[OF assms] by simp
qed

lemma timer_fired_fields:
  "queueStatus (snd (timer_fired k (w, h))) = queueStatus h"
  "position_deps (snd (timer_fired k (w, h))) = position_deps h"
  "polling_deps (snd (timer_fired k (w, h))) = polling_deps h"
  "wasPosition2 (snd (timer_fired k (w, h))) = wasPosition2 h"
  "sessionId (snd (timer_fired k (w, h))) = sessionId h"
  "hasJoined (snd (timer_fired k (w, h))) = hasJoined h"
  "hasStartedReading (snd (timer_fired k (w, h))) = hasStartedReading h"
  "audioManager (snd (timer_fired k (w, h))) = audioManager h"
  "isMuted (snd (timer_fired k (w, h))) = isMuted h"
  "autoSkipTimeout (snd (timer_fired k (w, h))) = autoSkipTimeout h"
  "timerInterval (snd (timer_fired k (w, h))) = timerInterval h"
  by (simp_all add: timer_fired_def Let_def split: option.splits timer.splits)

lemma timer_fired_pending:
  assumes "turn_inv h"
  shows "pending_inv (snd (timer_fired k (w, h)))"
proof -
  have "pending_inv (snd (timer_fired k (w, h))) = pending_inv h"
    by (intro pending_inv_frame) (simp_all add: timer_fired_fields)
  then show ?thesis using turn_inv_pending[OF assms] by simp
qed

lemma autoSkip_response_fields:
  "queueStatus (snd (autoSkip_response r (w, h))) = queueStatus h"
  "position_deps (snd (autoSkip_response r (w, h))) = position_deps h"
  "polling_deps (snd (autoSkip_response r (w, h))) = polling_deps h"
  "wasPosition2 (snd (autoSkip_response r (w, h))) = wasPosition2 h"
  "sessionId (snd (autoSkip_response r (w, h))) = sessionId h"
  "hasJoined (snd (autoSkip_response r (w, h))) = hasJoined h"
  "hasStartedReading (snd (autoSkip_response r (w, h))) = hasStartedReading h"
  "audioManager (snd (autoSkip_response r (w, h))) = audioManager h"
  "isMuted (snd (autoSkip_response r (w, h))) = isMuted h"
  "autoSkipTimeout (snd (autoSkip_response r (w, h))) = autoSkipTimeout h"
  "timerInterval (snd (autoSkip_response r (w, h))) = timerInterval h"
  by (cases r; simp add: autoSkip_response_def fetchQueueStatus_request_def)+

lemma autoSkip_response_pending:
  assumes "turn_inv h"
  shows "pending_inv (snd (autoSkip_response r (w, h)))"
proof -
  have "pending_inv (snd (autoSkip_response r (w, h))) = pending_inv h"
    by (intro pending_inv_frame) (simp_all add: autoSkip_response_fields)
  then show ?thesis using turn_inv_pending[OF assms] by simp
qed

lemma step_turn_inv:
  assumes "turn_inv h" "ev \<noteq> MuteClick"
  shows "turn_inv (snd (step ev (w, h)))"
proof (cases ev)
  case (StatusResponse r)
  obtain e x w' h' where f: "fetchQueueStatus_response r (w, h) = (e, x, w', h')"
    by (cases "fetchQueueStatus_response r (w, h)") auto
  have "pending_inv h'" using status_response_pending[OF assms(1), of r w] by (simp add: f)
  then show ?thesis using flush_pending[of h' w'] by (simp add: StatusResponse f)
next
  case (ActionClick a)
  obtain w' h' where f: "handleAction_request a (w, h) = (w', h')"
    by (cases "handleAction_request a (w, h)")
  have "pending_inv h'" using action_request_pending[OF assms(1), of a w] by (simp add: f)
  then show ?thesis using flush_pending[of h' w'] by (simp add: ActionClick f)
next
  case (ActionResponse a r)
  obtain w' h' where f: "handleAction_response a r (w, h) = (w', h')"
    by (cases "handleAction_response a r (w, h)")
  have "pending_inv h'" using action_response_pending[OF assms(1), of a r w] by (simp add: f)
  then show ?thesis using flush_pending[of h' w'] by (simp add: ActionResponse f)
next
  case MuteClick
  then show ?thesis using assms(2) by simp
next
  case (TimerFired k)
  obtain w' h' where f: "timer_fired k (w, h) = (w', h')"
    by (cases "timer_fired k (w, h)")
  have "pending_inv h'" using timer_fired_pending[OF assms(1), of k w] by (simp add: f)
  then show ?thesis using flush_pending[of h' w'] by (simp add: TimerFired f)
next
  case (AutoSkipResponse r)
  obtain w' h' where f: "autoSkip_response r (w, h) = (w', h')"
    by (cases "autoSkip_response r (w, h)")
  have "pending_inv h'" using autoSkip_response_pending[OF assms(1), of r w] by (simp add: f)
  then show ?thesis using flush_pending[of h' w'] by (simp add: AutoSkipResponse f)
qed

lemma run_turn_inv:
  assumes "turn_inv (snd st)" "MuteClick \<notin> set evs"
  shows "turn_inv (snd (run evs st))"
  using assms
proof (induction evs arbitrary: st)
  case Nil
  then show ?case by simp
next
  case (Cons ev evs)
  obtain w h where st: "st = (w, h)" by (cases st)
  have "turn_inv (snd (step ev (w, h)))"
    using step_turn_inv[of h ev w] Cons.prems by (auto simp: st)
  then show ?case using Cons.IH[of "step ev (w, h)"] Cons.prems by (simp add: st)
qed

lemma turn_inv_frame:
  assumes "audioManager h' = audioManager h" "isMuted h' = isMuted h"
    "queueStatus h' = queueStatus h" "hasStartedReading h' = hasStartedReading h"
    "position_deps h' = position_deps h" "wasPosition2 h' = wasPosition2 h"
    "sessionId h' = sessionId h" "polling_deps h' = polling_deps h" "hasJoined h' = hasJoined h"
  shows "turn_inv h' = turn_inv h"
  using assms
  by (cases "audioManager h")
     (simp_all add: turn_inv_def settled_def coherent_def muted_unless_reading_def
        position_effect_deps_def polling_effect_deps_def at_position1_def)

lemma flush_turn_inv: "turn_inv h \<Longrightarrow> turn_inv (snd (flush (w, h)))"
  by (simp add: flush_settled turn_inv_def)

lemma initialize_manager:
  "audio_manager.isMuted (snd (snd (snd (initialize hst True (w, new_AudioManager sid sg url))))) \<and>
   tracks_follow (snd (snd (snd (initialize hst True (w, new_AudioManager sid sg url)))))"
  by (auto simp: initialize_def startSignalPolling_def setTimer_def new_AudioManager_def
        tracks_follow_def local_tracks_def set_enabled_audio split: sum.splits)

lemma render_no_manager: "audioManager h = None \<Longrightarrow> audioManager (snd (render (w, h))) = None"
  by (simp add: render_fields)

lemma flush_no_manager: "audioManager h = None \<Longrightarrow> audioManager (snd (flush (w, h))) = None"
proof -
  assume a: "audioManager h = None"
  obtain w1 h1 where r: "render (w, h) = (w1, h1)" by (cases "render (w, h)")
  have "audioManager h1 = None" using render_no_manager[OF a, of w] by (simp add: r)
  then show ?thesis using render_no_manager[of h1 w1] by (simp add: flush_def r)
qed

lemma initializeAudio_muted:
  fixes h :: "'pc home"
  assumes "turn_inv h" "audioManager h = None" "queueStatus h \<noteq> None"
  shows "turn_inv (snd (initializeAudio hst sid sg True (w, h)))"
proof -
  obtain e ok w' and am :: "'pc audio_manager"
    where i: "initialize hst True (w, new_AudioManager sid sg API) = (e, ok, w', am)"
    using prod_cases4 by blast
  have "am = snd (snd (snd (initialize hst True (w, new_AudioManager sid sg API))))"
    by (simp add: i)
  then have am: "audio_manager.isMuted am \<and> tracks_follow am"
    by (simp only: initialize_manager)
  have m: "isMuted h" using assms(1,2) by (simp add: turn_inv_def coherent_def)
  have "snd (initializeAudio hst sid sg True (w, h)) = h\<lparr>audioManager := Some am\<rparr> \<or>
        snd (initializeAudio hst sid sg True (w, h)) =
          h\<lparr>audioManager := Some am, audioInitialized := True, isMuted := True\<rparr>"
    by (auto simp: initializeAudio_def i split: option.splits bool.splits)
  then show ?thesis
    using assms am m
    by (auto simp: turn_inv_def settled_def coherent_def muted_unless_reading_def
          position_effect_deps_def polling_effect_deps_def at_position1_def)
qed

lemma fetchQueueStatus_pending:
  assumes "turn_inv h"
  shows "pending_inv (snd (snd (snd (fetchQueueStatus sid r (w, h)))))"
proof (cases "fst (fetchQueueStatus_request sid (w, h))")
  case True
  then have "fetchQueueStatus sid r (w, h) =
     fetchQueueStatus_response r (w\<lparr>fetched := fetched w @ [''/queue/status'']\<rparr>, h)"
    by (auto simp: fetchQueueStatus_def fetchQueueStatus_request_def split: if_splits)
  then show ?thesis using status_response_pending[OF assms] by simp
next
  case False
  then have "fetchQueueStatus sid r (w, h) = (None, None, w, h)"
    by (auto simp: fetchQueueStatus_def fetchQueueStatus_request_def split: if_splits)
  then show ?thesis using turn_inv_pending[OF assms] by simp
qed

lemma fetchQueueStatus_result:
  "fst (snd (fetchQueueStatus sid r (w, h))) = Some q \<Longrightarrow>
     r = Ok q \<and> queueStatus (snd (snd (snd (fetchQueueStatus sid r (w, h))))) = Some q \<and>
     audioManager (snd (snd (snd (fetchQueueStatus sid r (w, h))))) = audioManager h"
  by (cases r)
     (auto simp: fetchQueueStatus_def fetchQueueStatus_request_def fetchQueueStatus_response_def
        split_beta split: if_splits)

lemma flush_fields:
  "queueStatus (snd (flush (w, h))) = queueStatus h"
  "sessionId (snd (flush (w, h))) = sessionId h"
  "hasJoined (snd (flush (w, h))) = hasJoined h"
proof -
  obtain w1 h1 where r: "render (w, h) = (w1, h1)" by (cases "render (w, h)")
  have h1: "h1 = snd (render (w, h))" by (simp add: r)
  show "queueStatus (snd (flush (w, h))) = queueStatus h"
    "sessionId (snd (flush (w, h))) = sessionId h"
    "hasJoined (snd (flush (w, h))) = hasJoined h"
    by (simp_all add: flush_def r render_fields) (simp_all add: h1 render_fields)
qed

lemma joinQueue_turn_inv:
  assumes inv: "turn_inv h" and nomgr: "audioManager h = None"
    and away: "\<forall>q. rs = Ok q \<longrightarrow> \<not> isPosition1 q"
  shows "turn_inv (snd (joinQueue hst rj rs (w, h)))"
proof (cases "trim (name h) \<noteq> [] \<and> truthy (selectedSubGroup h) \<and> (\<exists>sid. rj = Ok sid)")
  case False
  then have "snd (joinQueue hst rj rs (w, h)) = h"
    by (cases rj) (auto simp: joinQueue_def truthy_def split: option.splits)
  then show ?thesis using inv by simp
next
  case True
  then obtain sid sg where rj: "rj = Ok sid" and sg: "selectedSubGroup h = Some sg" "sg \<noteq> []"
    and nm: "trim (name h) \<noteq> []"
    by (auto simp: truthy_def split: option.splits)
  define w0 where "w0 = w\<lparr>localStorage := AList.update ''userName'' (trim (name h))
                             (AList.update ''sessionId'' sid (localStorage w))\<rparr>"
  define h0 where "h0 = h\<lparr>loading := True, sessionId := Some sid, hasJoined := True\<rparr>"
  obtain w1 h1 where f1: "flush (w0, h0) = (w1, h1)" by (cases "flush (w0, h0)")
  obtain e sd w2 h2 where fq: "fetchQueueStatus (Some sid) rs (w1, h1) = (e, sd, w2, h2)"
    using prod_cases4 by blast
  obtain w3 h3 where f3: "flush (w2, h2) = (w3, h3)" by (cases "flush (w2, h2)")
  have p0: "pending_inv h0"
    using inv nomgr
    by (auto simp: h0_def pending_inv_def turn_inv_def coherent_def muted_unless_reading_def
          at_position1_def)
  have i1: "turn_inv h1" using flush_pending[OF p0, of w0] by (simp add: f1)
  have "audioManager (snd (flush (w0, h0))) = None"
    using nomgr by (intro flush_no_manager) (simp add: h0_def)
  then have m1: "audioManager h1 = None" by (simp add: f1)
  have p2: "pending_inv h2" using fetchQueueStatus_pending[OF i1, of "Some sid" rs w1] by (simp add: fq)
  have i3: "turn_inv h3" using flush_pending[OF p2, of w2] by (simp add: f3)
  define st4 where "st4 = (case sd of None \<Rightarrow> (w3, h3)
       | Some q \<Rightarrow> initializeAudio hst sid sg (\<not> isPosition1 q) (w3, h3))"
  have i4: "turn_inv (snd st4)"
  proof (cases sd)
    case None
    then show ?thesis using i3 by (simp add: st4_def)
  next
    case (Some q)
    have r: "rs = Ok q \<and> queueStatus h2 = Some q \<and> audioManager h2 = audioManager h1"
      using fetchQueueStatus_result[of "Some sid" rs w1 h1 q] Some by (simp add: fq)
    then have nq: "\<not> isPosition1 q" using away by simp
    have q3: "queueStatus h3 \<noteq> None"
      using flush_fields(1)[of w2 h2] r by (simp add: f3)
    have "audioManager (snd (flush (w2, h2))) = None"
      using r m1 by (intro flush_no_manager) simp
    then have m3: "audioManager h3 = None" by (simp add: f3)
    show ?thesis using initializeAudio_muted[OF i3 m3 q3] Some nq by (simp add: st4_def)
  qed
  obtain w4 h4 where s4: "st4 = (w4, h4)" by (cases st4)
  obtain w5 h5 where f5: "flush (w4, h4) = (w5, h5)" by (cases "flush (w4, h4)")
  have i5: "turn_inv h5" using flush_turn_inv[of h4 w4] i4 by (simp add: s4 f5)
  have "turn_inv (h5\<lparr>loading := False\<rparr>) = turn_inv h5"
    by (intro turn_inv_frame) simp_all
  then have i6: "turn_inv (snd (flush (w5, h5\<lparr>loading := False\<rparr>)))"
    using flush_turn_inv i5 by blast
  have "joinQueue hst rj rs (w, h) = flush (w5, h5\<lparr>loading := False\<rparr>)"
    using nm sg rj s4 f5
    by (cases sd)
       (simp_all add: joinQueue_def w0_def[symmetric] h0_def[symmetric] f1 fq f3 st4_def)
  then show ?thesis using i6 by simp
qed

lemma turn_state_reading:
  "(turn_state h = Position1Reading) = (at_position1 h \<and> hasStartedReading h)"
  by (simp add: turn_state_def at_position1_def split: option.splits)

lemma render_stays_muted: "isMuted h \<Longrightarrow> isMuted (snd (render (w, h)))"
  by (simp add: render_fields)

lemma flush_stays_muted: "isMuted h \<Longrightarrow> isMuted (snd (flush (w, h)))"
proof -
  assume a: "isMuted h"
  obtain w1 h1 where r: "render (w, h) = (w1, h1)" by (cases "render (w, h)")
  have "isMuted h1" using render_stays_muted[OF a, of w] by (simp add: r)
  then show ?thesis using render_stays_muted[of h1 w1] by (simp add: flush_def r)
qed

lemma render_stays_reading:
  assumes "at_position1 h" "hasStartedReading h" "\<not> isMuted h"
  shows "at_position1 (snd (render (w, h))) \<and> hasStartedReading (snd (render (w, h))) \<and>
         \<not> isMuted (snd (render (w, h)))"
  using assms by (simp add: render_fields)

lemma flush_stays_reading:
  assumes "at_position1 h" "hasStartedReading h" "\<not> isMuted h"
  shows "at_position1 (snd (flush (w, h))) \<and> hasStartedReading (snd (flush (w, h))) \<and>
         \<not> isMuted (snd (flush (w, h)))"
proof -
  obtain w1 h1 where r: "render (w, h) = (w1, h1)" by (cases "render (w, h)")
  have "at_position1 h1 \<and> hasStartedReading h1 \<and> \<not> isMuted h1"
    using render_stays_reading[OF assms, of w] by (simp add: r)
  then show ?thesis using render_stays_reading[of h1 w1] by (simp add: flush_def r)
qed

lemma start_unmutes:
  assumes "at_position1 h" "audioManager h \<noteq> None"
  shows "turn_state (snd (step (ActionResponse Start (Ok ())) (w, h))) = Position1Reading \<and>
         \<not> isMuted (snd (step (ActionResponse Start (Ok ())) (w, h)))"
proof -
  obtain w1 h1 where f: "handleAction_response Start (Ok ()) (w, h) = (w1, h1)"
    by (cases "handleAction_response Start (Ok ()) (w, h)")
  have h1: "h1 = snd (handleAction_response Start (Ok ()) (w, h))" by (simp add: f)
  have "at_position1 h1 \<and> hasStartedReading h1 \<and> \<not> isMuted h1"
    using assms unfolding h1 by (simp add: handleAction_response_fields at_position1_def)
  then have "at_position1 (snd (flush (w1, h1))) \<and> hasStartedReading (snd (flush (w1, h1))) \<and>
         \<not> isMuted (snd (flush (w1, h1)))"
    using flush_stays_reading by blast
  then show ?thesis by (simp add: f turn_state_reading)
qed

lemma skip_finish_mutes:
  assumes "coherent h" "truthy (sessionId h)" "a = Skip \<or> a = Finish"
  shows "isMuted (snd (step (ActionClick a) (w, h)))"
proof -
  obtain w1 h1 where f: "handleAction_request a (w, h) = (w1, h1)"
    by (cases "handleAction_request a (w, h)")
  have h1: "h1 = snd (handleAction_request a (w, h))" by (simp add: f)
  have "isMuted h1"
    using assms coherent_facts(1)[OF assms(1)] unfolding h1
    by (auto simp: handleAction_request_fields)
  then show ?thesis using flush_stays_muted[of h1 w1] by (simp add: f)
qed

lemma leaving_mutes:
  assumes "turn_inv h" "\<not> isPosition1 q"
  shows "isMuted (snd (step (StatusResponse (Ok q)) (w, h))) \<and>
         turn_state (snd (step (StatusResponse (Ok q)) (w, h))) \<noteq> Position1Reading"
proof -
  have i: "turn_inv (snd (step (StatusResponse (Ok q)) (w, h)))"
    using step_turn_inv[OF assms(1), of "StatusResponse (Ok q)" w] by simp
  have "queueStatus (snd (step (StatusResponse (Ok q)) (w, h))) = Some q"
    by (simp add: fetchQueueStatus_response_def flush_fields)
  then have "\<not> at_position1 (snd (step (StatusResponse (Ok q)) (w, h)))"
    using assms(2) by (simp add: at_position1_def)
  then show ?thesis using i
    by (auto simp: turn_inv_def muted_unless_reading_def turn_state_reading)
qed

text \<open>
  C1, as the code has it. Take a client that joins at a position other than 1, and any
  sequence of events without a click on the mute button. In every state reached, once
  the effects have run: if the mute flag is false then the coordinator is in
  \<open>Position1Reading\<close>, and the manager's flag and the \<open>enabled\<close> flag of every local audio
  track agree with the mute flag. From such a state a successful \<open>start\<close> at position 1
  enters \<open>Position1Reading\<close> unmuted, a click on \<open>skip\<close> or \<open>finish\<close> mutes, and a snapshot
  without position 1 leaves \<open>Position1Reading\<close> muted, each within its own step.
\<close>

theorem unmuted_only_while_reading:
  fixes h :: "'pc home"
  assumes "turn_inv h" and "audioManager h = None"
    and "\<forall>q. rs = Ok q \<longrightarrow> \<not> isPosition1 q"
    and "MuteClick \<notin> set evs"
  shows "(case run evs (joinQueue hst rj rs (w, h)) of (w', h') \<Rightarrow>
           (\<not> isMuted h' \<longrightarrow> turn_state h' = Position1Reading) \<and>
           (\<forall>am. audioManager h' = Some am \<longrightarrow>
              audio_manager.isMuted am = isMuted h' \<and>
              (\<forall>t \<in> set (local_tracks am). kind t = AudioTrack \<longrightarrow> enabled t = (\<not> isMuted h'))) \<and>
           (at_position1 h' \<and> audioManager h' \<noteq> None \<longrightarrow>
              (case step (ActionResponse Start (Ok ())) (w', h') of (w2, h2) \<Rightarrow>
                 turn_state h2 = Position1Reading \<and> \<not> isMuted h2)) \<and>
           (\<forall>a. truthy (sessionId h') \<and> (a = Skip \<or> a = Finish) \<longrightarrow>
              isMuted (snd (step (ActionClick a) (w', h')))) \<and>
           (\<forall>q. \<not> isPosition1 q \<longrightarrow>
              (case step (StatusResponse (Ok q)) (w', h') of (w2, h2) \<Rightarrow>
                 isMuted h2 \<and> turn_state h2 \<noteq> Position1Reading)))"
proof -
  obtain w' h' where r: "run evs (joinQueue hst rj rs (w, h)) = (w', h')"
    by (cases "run evs (joinQueue hst rj rs (w, h))")
  have "turn_inv (snd (joinQueue hst rj rs (w, h)))"
    using joinQueue_turn_inv[OF assms(1,2,3)] .
  then have i: "turn_inv h'"
    using run_turn_inv[of "joinQueue hst rj rs (w, h)" evs] assms(4) by (simp add: r)
  have c: "coherent h'" and m: "muted_unless_reading h'"
    using i by (simp_all add: turn_inv_def)
  have 1: "\<not> isMuted h' \<longrightarrow> turn_state h' = Position1Reading"
    using m by (auto simp: muted_unless_reading_def turn_state_reading)
  have 2: "\<forall>am. audioManager h' = Some am \<longrightarrow>
              audio_manager.isMuted am = isMuted h' \<and>
              (\<forall>t \<in> set (local_tracks am). kind t = AudioTrack \<longrightarrow> enabled t = (\<not> isMuted h'))"
    using c by (auto simp: coherent_def tracks_follow_def)
  have 3: "at_position1 h' \<and> audioManager h' \<noteq> None \<longrightarrow>
              (case step (ActionResponse Start (Ok ())) (w', h') of (w2, h2) \<Rightarrow>
                 turn_state h2 = Position1Reading \<and> \<not> isMuted h2)"
    using start_unmutes[of h' w'] by (auto simp: split_beta)
  have 4: "\<forall>a. truthy (sessionId h') \<and> (a = Skip \<or> a = Finish) \<longrightarrow>
              isMuted (snd (step (ActionClick a) (w', h')))"
    using skip_finish_mutes[OF c] by blast
  have 5: "\<forall>q. \<not> isPosition1 q \<longrightarrow>
              (case step (StatusResponse (Ok q)) (w', h') of (w2, h2) \<Rightarrow>
                 isMuted h2 \<and> turn_state h2 \<noteq> Position1Reading)"
    using leaving_mutes[OF i] by (auto simp: split_beta)
  show ?thesis unfolding r using 1 2 3 4 5 by simp
qed

theorem unmuted_only_while_reading_witness:
  "turn_inv (snd visitor) \<and> audioManager (snd visitor) = None \<and> \<not> isPosition1 (snapshot 3) \<and>
   MuteClick \<notin> set script \<and>
   \<not> isMuted (snd (run script queued)) \<and>
   turn_state (snd (run script queued)) = Position1Reading \<and>
   at_position1 (snd (run script queued)) \<and>
   truthy (sessionId (snd (run script queued))) \<and>
   isMuted (snd (step (ActionClick Finish) (run script queued))) \<and>
   isMuted (snd (step (StatusResponse (Ok (snapshot 3))) (run script queued)))"
proof -
  have a: "turn_inv (snd visitor)" by code_simp
  have b: "audioManager (snd visitor) = None" by code_simp
  have c: "\<forall>q. Ok (snapshot 3) = Ok q \<longrightarrow> \<not> isPosition1 q" by (simp add: snapshot_def)
  have d: "MuteClick \<notin> set script" by (simp add: script_def)
  have q: "queued = joinQueue microphone (Ok ''s1'') (Ok (snapshot 3)) (fst visitor, snd visitor)"
    by (simp add: queued_def)
  have e: "\<not> isMuted (snd (run script queued)) \<and> at_position1 (snd (run script queued)) \<and>
   truthy (sessionId (snd (run script queued))) \<and> \<not> isPosition1 (snapshot 3)" by code_simp
  note t = unmuted_only_while_reading [OF a b c d, where hst = microphone and rj = "Ok ''s1''"
      and w = "fst visitor", folded q]
  show ?thesis using a b d e t by (auto simp: split_beta)
qed

text \<open>
  The equivalence itself fails in three ways: a click on the mute button unmutes a
  queued participant; a participant who joins at position 1 starts unmuted before any
  \<open>start\<close>; and after a \<open>finish\<close> that the server rejects the participant is muted while
  the component still has them reading at position 1.
\<close>

theorem mute_flag_counterexample:
  "\<not> isMuted (snd (step MuteClick queued)) \<and>
   turn_state (snd (step MuteClick queued)) = Queued \<and>
   \<not> isMuted (snd joined_first) \<and>
   turn_state (snd joined_first) = Position1Idle \<and>
   isMuted (snd (run [ActionClick Finish, ActionResponse Finish NotOk] reading)) \<and>
   turn_state (snd (run [ActionClick Finish, ActionResponse Finish NotOk] reading)) = Position1Reading"
  by code_simp

section \<open>Session invalidation\<close>

lemma clear_ref_fields [simp]:
  "closed_peers (clear_ref r w) = closed_peers w"
  "stopped_tracks (clear_ref r w) = stopped_tracks w"
  "localStorage (clear_ref r w) = localStorage w"
  "actions_sent (clear_ref r w) = actions_sent w"
  "next_handle (clear_ref r w) = next_handle w"
  by (simp_all add: clear_ref_def clearTimer_def split: option.splits)

lemma close_each_storage [simp]: "localStorage (close_each pcs v) = localStorage v"
  by (induction pcs arbitrary: v) auto

lemma cleanup_timers: "set (timers (fst (snd (cleanup (w, am))))) \<subseteq> set (timers w)"
  by (auto simp: cleanup_def Let_def clearTimer_def split: option.splits)

lemma cleanup_poll_gone:
  "audio_manager.pollingInterval am = Some k \<Longrightarrow>
     k \<notin> fst ` set (timers (fst (snd (cleanup (w, am)))))"
  by (auto simp: cleanup_def Let_def clearTimer_def split: option.splits)

lemma cleanup_closed:
  "fst ` set (peerConnections am) \<subseteq> set (closed_peers (fst (snd (cleanup (w, am)))))"
  by (auto simp: cleanup_def Let_def close_each_closed split: option.splits)

lemma cleanup_stopped:
  "set (local_tracks am) \<subseteq> set (stopped_tracks (fst (snd (cleanup (w, am)))))"
  by (auto simp: cleanup_def Let_def local_tracks_def split: option.splits)

lemma cleanup_storage: "localStorage (fst (snd (cleanup (w, am)))) = localStorage w"
  by (auto simp: cleanup_def Let_def clearTimer_def split: option.splits)

lemma handleSessionEnd_world:
  "fst (snd (handleSessionEnd (w, h))) =
     showToast ''Session ended by Admin''
       ((session_end_world w h)\<lparr>localStorage :=
           AList.delete ''userName'' (AList.delete ''sessionId'' (localStorage (session_end_world w h)))\<rparr>)"
  using cleanup_no_exn
  by (auto simp: handleSessionEnd_def session_end_world_def Let_def cleanup_def
        split: option.splits prod.splits)

lemma session_end_world_timers:
  "set (timers (session_end_world w h)) \<subseteq>
     set (timers (clear_ref (timerInterval h)
                    (clear_ref (autoSkipTimeout h) (clear_ref (pollingInterval h) w))))"
proof -
  let ?w3 = "clear_ref (timerInterval h) (clear_ref (autoSkipTimeout h) (clear_ref (pollingInterval h) w))"
  let ?w1 = "clear_ref (documentPollingInterval h) ?w3"
  have a: "set (timers ?w1) \<subseteq> set (timers ?w3)" by (rule clear_ref_timers)
  show ?thesis
  proof (cases "audioManager h")
    case None
    then show ?thesis using a by (simp add: session_end_world_def Let_def)
  next
    case (Some am)
    have "set (timers (fst (snd (cleanup (?w1, am))))) \<subseteq> set (timers ?w1)"
      by (rule cleanup_timers)
    then show ?thesis using a Some by (auto simp: session_end_world_def Let_def)
  qed
qed

lemma clear_refs_gone:
  assumes "r1 = Some k \<or> r2 = Some k \<or> r3 = Some k"
  shows "k \<notin> fst ` set (timers (clear_ref r3 (clear_ref r2 (clear_ref r1 w))))"
proof -
  consider "r1 = Some k" | "r2 = Some k" | "r3 = Some k" using assms by blast
  then show ?thesis
  proof cases
    case 1
    have "k \<notin> fst ` set (timers (clear_ref r1 w))" using 1 by (rule clear_ref_gone)
    then have "k \<notin> fst ` set (timers (clear_ref r2 (clear_ref r1 w)))" by (rule clear_ref_gone2)
    then show ?thesis by (rule clear_ref_gone2)
  next
    case 2
    have "k \<notin> fst ` set (timers (clear_ref r2 (clear_ref r1 w)))" using 2 by (rule clear_ref_gone)
    then show ?thesis by (rule clear_ref_gone2)
  next
    case 3
    then show ?thesis by (rule clear_ref_gone)
  qed
qed

lemma session_end_refs_gone:
  assumes "pollingInterval h = Some k \<or> autoSkipTimeout h = Some k \<or> timerInterval h = Some k"
  shows "k \<notin> fst ` set (timers (session_end_world w h))"
proof -
  have "k \<notin> fst ` set (timers (clear_ref (timerInterval h)
                    (clear_ref (autoSkipTimeout h) (clear_ref (pollingInterval h) w))))"
    using assms by (rule clear_refs_gone)
  then show ?thesis using session_end_world_timers[of w h] by auto
qed

lemma session_end_manager:
  assumes "audioManager h = Some am"
  shows "(\<forall>k. audio_manager.pollingInterval am = Some k \<longrightarrow>
            k \<notin> fst ` set (timers (session_end_world w h))) \<and>
         fst ` set (peerConnections am) \<subseteq> set (closed_peers (session_end_world w h)) \<and>
         set (local_tracks am) \<subseteq> set (stopped_tracks (session_end_world w h))"
proof -
  define w1 where "w1 = clear_ref (documentPollingInterval h)
                    (clear_ref (timerInterval h)
                       (clear_ref (autoSkipTimeout h) (clear_ref (pollingInterval h) w)))"
  have s: "session_end_world w h = fst (snd (cleanup (w1, am)))"
    using assms by (simp add: session_end_world_def Let_def w1_def)
  show ?thesis
    unfolding s using cleanup_poll_gone[of am _ w1] cleanup_closed[of am w1] cleanup_stopped[of am w1]
    by simp
qed

lemma delete_both:
  "map_of (AList.delete ''userName'' (AList.delete ''sessionId'' al)) ''sessionId'' = None \<and>
   map_of (AList.delete ''userName'' (AList.delete ''sessionId'' al)) ''userName'' = None"
  by (simp add: AList.delete_conv')

lemma replicate_network_errors:
  "settled h \<Longrightarrow> run (replicate n (StatusResponse NetworkError)) (w, h) = (w, h)"
  by (induction n) (simp_all add: fetchQueueStatus_response_def flush_settled)

text \<open>
  C5, as the code has it. No count of failures is kept. A status request that throws
  leaves the state as it was, however many do so in a row. The first response that is
  not ok ends the session: every timer the component refers to is cleared, the audio
  manager is cleaned up (its poll interval cleared, its connections closed, its tracks
  stopped) and dropped, and the client is back to no session, not joined, no snapshot,
  no role and no name, muted, with nothing stored.
\<close>

theorem status_failure_ends_session:
  "fetchQueueStatus_response NetworkError (w, h) = (None, None, w, h) \<and>
   (settled h \<longrightarrow> run (replicate n (StatusResponse NetworkError)) (w, h) = (w, h)) \<and>
   (case fetchQueueStatus_response NotOk (w, h) of (e, res, w', h') \<Rightarrow>
      e = None \<and> res = None \<and> sessionId h' = None \<and> \<not> hasJoined h' \<and>
      queueStatus h' = None \<and> userRole h' = None \<and> name h' = [] \<and>
      audioManager h' = None \<and> \<not> audioInitialized h' \<and> isMuted h' \<and>
      \<not> hasStartedReading h' \<and> turn_state h' = NotInQueue \<and>
      (\<forall>k. pollingInterval h = Some k \<or> autoSkipTimeout h = Some k \<or> timerInterval h = Some k \<longrightarrow>
           k \<notin> fst ` set (timers w')) \<and>
      (\<forall>am. audioManager h = Some am \<longrightarrow>
           (\<forall>k. audio_manager.pollingInterval am = Some k \<longrightarrow> k \<notin> fst ` set (timers w')) \<and>
           fst ` set (peerConnections am) \<subseteq> set (closed_peers w') \<and>
           set (local_tracks am) \<subseteq> set (stopped_tracks w')) \<and>
      map_of (localStorage w') ''sessionId'' = None \<and>
      map_of (localStorage w') ''userName'' = None)"
proof -
  obtain e w' h' where s: "handleSessionEnd (w, h) = (e, w', h')"
    using prod_cases3 by blast
  have h': "h' = snd (snd (handleSessionEnd (w, h)))" and e: "e = fst (handleSessionEnd (w, h))"
    by (simp_all add: s)
  have "w' = fst (snd (handleSessionEnd (w, h)))" by (simp add: s)
  then have w': "w' = showToast ''Session ended by Admin''
       ((session_end_world w h)\<lparr>localStorage :=
           AList.delete ''userName'' (AList.delete ''sessionId'' (localStorage (session_end_world w h)))\<rparr>)"
    by (simp only: handleSessionEnd_world)
  have t: "timers w' = timers (session_end_world w h)"
    and c: "closed_peers w' = closed_peers (session_end_world w h)"
    and st: "stopped_tracks w' = stopped_tracks (session_end_world w h)"
    and ls: "localStorage w' = AList.delete ''userName'' (AList.delete ''sessionId'' (localStorage (session_end_world w h)))"
    by (simp_all add: w' showToast_def)
  have f: "sessionId h' = None \<and> \<not> hasJoined h' \<and>
      queueStatus h' = None \<and> userRole h' = None \<and> name h' = [] \<and>
      audioManager h' = None \<and> \<not> audioInitialized h' \<and> isMuted h' \<and>
      \<not> hasStartedReading h'"
    unfolding h' by (simp add: handleSessionEnd_fields)
  then have ts: "turn_state h' = NotInQueue" by (simp add: turn_state_def)
  have r: "\<forall>k. pollingInterval h = Some k \<or> autoSkipTimeout h = Some k \<or> timerInterval h = Some k \<longrightarrow>
           k \<notin> fst ` set (timers w')"
    unfolding t using session_end_refs_gone by blast
  have m: "\<forall>am. audioManager h = Some am \<longrightarrow>
           (\<forall>k. audio_manager.pollingInterval am = Some k \<longrightarrow> k \<notin> fst ` set (timers w')) \<and>
           fst ` set (peerConnections am) \<subseteq> set (closed_peers w') \<and>
           set (local_tracks am) \<subseteq> set (stopped_tracks w')"
    unfolding t c st using session_end_manager by blast
  have l: "map_of (localStorage w') ''sessionId'' = None \<and>
      map_of (localStorage w') ''userName'' = None"
    unfolding ls by (rule delete_both)
  have n: "settled h \<longrightarrow> run (replicate n (StatusResponse NetworkError)) (w, h) = (w, h)"
    using replicate_network_errors by blast
  show ?thesis
    using f ts r m l n by (simp add: fetchQueueStatus_response_def s)
qed

theorem status_failure_ends_session_witness:
  "settled (snd queued) \<and> pollingInterval (snd queued) = Some 1 \<and>
   audioManager (snd queued) \<noteq> None \<and>
   run (replicate 5 (StatusResponse NetworkError)) queued = queued \<and>
   (case fetchQueueStatus_response NotOk queued of (e, res, w', h') \<Rightarrow>
      sessionId h' = None \<and> timers w' = [] \<and>
      stopped_tracks w' = [\<lparr>kind = AudioTrack, enabled = False\<rparr>])"
proof -
  note t = status_failure_ends_session [where w = "fst queued" and h = "snd queued" and n = 5]
  have e: "settled (snd queued) \<and> pollingInterval (snd queued) = Some 1 \<and>
   audioManager (snd queued) \<noteq> None \<and>
   (case fetchQueueStatus_response NotOk queued of (e, res, w', h') \<Rightarrow>
      sessionId h' = None \<and> timers w' = [] \<and>
      stopped_tracks w' = [\<lparr>kind = AudioTrack, enabled = False\<rparr>])"
    by code_simp
  show ?thesis using e t by simp
qed

text \<open>
  A single response that is not ok ends the session of a queued participant; three
  network errors in a row do not.
\<close>

theorem invalidation_counterexample:
  "sessionId (snd queued) = Some ''s1'' \<and> hasJoined (snd queued) \<and>
   sessionId (snd (step (StatusResponse NotOk) queued)) = None \<and>
   \<not> hasJoined (snd (step (StatusResponse NotOk) queued)) \<and>
   audioManager (snd (step (StatusResponse NotOk) queued)) = None \<and>
   run (replicate 3 (StatusResponse NetworkError)) queued = queued"
  by code_simp

section \<open>Automatic skip\<close>

lemma armed_positive: "armed i t sid left pending st \<Longrightarrow> \<forall>n. left = Some n \<longrightarrow> 0 < n"
  by (cases st) (auto simp: armed_def)

lemma seconds_left_add: "seconds_left (seconds_left l a) b = seconds_left l (a + b)"
  by (auto simp: seconds_left_def split: option.splits)

lemma seconds_left_0 [simp]: "(\<forall>n. l = Some n \<longrightarrow> 0 < n) \<Longrightarrow> seconds_left l 0 = l"
  by (auto simp: seconds_left_def split: option.splits)

lemma map_absent:
  "k \<notin> fst ` set xs \<Longrightarrow> map (\<lambda>kt. if fst kt = k then (k, v) else kt) xs = xs"
  by (induction xs) auto

lemma filter_update_coordinator:
  assumes "distinct (map fst ts)" "(k, v0) \<in> set ts" "coordinator (k, v0)" "coordinator (k, v)"
  shows "filter coordinator (AList.update k v ts) =
         map (\<lambda>kt. if fst kt = k then (k, v) else kt) (filter coordinator ts)"
  using assms
proof (induction ts)
  case Nil
  then show ?case by simp
next
  case (Cons a ts)
  obtain k' v' where a: "a = (k', v')" by (cases a)
  show ?case
  proof (cases "k' = k")
    case True
    then have nk: "k \<notin> fst ` set ts" using Cons.prems(1) by (auto simp: a)
    then have v': "v' = v0" using Cons.prems(2) True by (force simp: a)
    have "k \<notin> fst ` set (filter coordinator ts)" using nk by auto
    then have m: "map (\<lambda>kt. if fst kt = k then (k, v) else kt) (filter coordinator ts)
                  = filter coordinator ts"
      by (rule map_absent)
    show ?thesis using True Cons.prems(3,4) m v' by (simp add: a)
  next
    case False
    then have "(k, v0) \<in> set ts" using Cons.prems(2) by (auto simp: a)
    then have "filter coordinator (AList.update k v ts) =
         map (\<lambda>kt. if fst kt = k then (k, v) else kt) (filter coordinator ts)"
      using Cons.IH Cons.prems by simp
    then show ?thesis using False by (simp add: a)
  qed
qed

lemma update_keeps_keys:
  "(k, v0) \<in> set ts \<Longrightarrow> map fst (AList.update k v ts) = map fst ts"
  by (induction ts) auto

lemma coordinator_lookup:
  assumes "distinct (map fst (timers w))" "(k, v) \<in> set (coordinator_timers w)"
  shows "map_of (timers w) k = Some v"
  using assms by (simp add: coordinator_timers_def)

lemma lookup_coordinator:
  assumes "map_of (timers w) k = Some v" "coordinator (k, v)"
  shows "(k, v) \<in> set (coordinator_timers w)"
  using assms by (auto simp: coordinator_timers_def dest: map_of_SomeD)

lemma coordinator_clear:
  "coordinator_timers (clearTimer k w) = filter (\<lambda>kt. fst kt \<noteq> k) (coordinator_timers w)"
  by (auto simp: coordinator_timers_def clearTimer_def intro: filter_cong)

lemma clearTimer_distinct:
  "distinct (map fst (timers w)) \<Longrightarrow> distinct (map fst (timers (clearTimer k w)))"
  by (simp add: clearTimer_def distinct_map_filter)

lemma position_effect_waiting:
  assumes "at_position1 h" "\<not> hasStartedReading h" "autoSkipTimeout h = Some t"
  shows "fst (position_effect (w, h)) = (if wasPosition2 h then notify w else w)"
    and "autoSkipTimeout (snd (position_effect (w, h))) = Some t"
    and "timerInterval (snd (position_effect (w, h))) = timerInterval h"
  using assms by (simp_all add: position_effect_def Let_def split_beta)

lemma notify_fields [simp]:
  "timers (notify w) = timers w" "actions_sent (notify w) = actions_sent w"
  "next_handle (notify w) = next_handle w"
  by (simp_all add: notify_def)

lemma render_waiting:
  assumes "at_position1 h" "\<not> hasStartedReading h" "autoSkipTimeout h = Some t"
    "polling_deps h = Some (polling_effect_deps h)"
  shows "timers (fst (render (w, h))) = timers w"
    and "actions_sent (fst (render (w, h))) = actions_sent w"
    and "autoSkipTimeout (snd (render (w, h))) = Some t"
    and "timerInterval (snd (render (w, h))) = timerInterval h"
  using assms
  by (simp_all add: render_def split_beta position_effect_waiting at_position1_def)

lemma flush_waiting:
  assumes "at_position1 h" "\<not> hasStartedReading h" "autoSkipTimeout h = Some t"
    "polling_deps h = Some (polling_effect_deps h)"
  shows "timers (fst (flush (w, h))) = timers w"
    and "actions_sent (fst (flush (w, h))) = actions_sent w"
    and "autoSkipTimeout (snd (flush (w, h))) = Some t"
    and "timerInterval (snd (flush (w, h))) = timerInterval h"
    and "at_position1 (snd (flush (w, h)))"
    and "\<not> hasStartedReading (snd (flush (w, h)))"
proof -
  obtain w1 h1 where r: "render (w, h) = (w1, h1)" by (cases "render (w, h)")
  have w1: "w1 = fst (render (w, h))" and h1: "h1 = snd (render (w, h))" by (simp_all add: r)
  have a: "at_position1 h1" "\<not> hasStartedReading h1" "autoSkipTimeout h1 = Some t"
    "polling_deps h1 = Some (polling_effect_deps h1)"
    unfolding h1 using assms
    by (simp_all add: render_fields render_waiting polling_effect_deps_def)
  have b: "timers w1 = timers w" "actions_sent w1 = actions_sent w"
    "timerInterval h1 = timerInterval h"
    unfolding w1 h1 using assms by (simp_all add: render_waiting)
  show "timers (fst (flush (w, h))) = timers w"
    and "actions_sent (fst (flush (w, h))) = actions_sent w"
    and "autoSkipTimeout (snd (flush (w, h))) = Some t"
    and "timerInterval (snd (flush (w, h))) = timerInterval h"
    and "at_position1 (snd (flush (w, h)))"
    and "\<not> hasStartedReading (snd (flush (w, h)))"
    using a b by (simp_all add: flush_def r render_waiting render_fields)
qed

lemma armed_frame:
  assumes "armed i t sid left pending (w, h)"
    and "timers w' = timers w"
    and "at_position1 h'" "\<not> hasStartedReading h'" "settled h'"
    and "timerInterval h' = timerInterval h" "autoSkipTimeout h' = autoSkipTimeout h"
  shows "armed i t sid left pending (w', h')"
  using assms by (simp add: armed_def coordinator_timers_def)

lemma armed_flush:
  assumes "armed i t sid left pending (w, h)"
    and "timers w' = timers w"
    and "at_position1 h'" "\<not> hasStartedReading h'"
    and "polling_deps h' = Some (polling_effect_deps h')"
    and "timerInterval h' = timerInterval h" "autoSkipTimeout h' = autoSkipTimeout h"
  shows "armed i t sid left pending (flush (w', h'))"
    and "actions_sent (fst (flush (w', h'))) = actions_sent w'"
proof -
  have t: "autoSkipTimeout h' = Some t" using assms(1,7) by (simp add: armed_def)
  note f = flush_waiting[OF assms(3,4) t assms(5), of w']
  have "armed i t sid left pending (fst (flush (w', h')), snd (flush (w', h')))"
    using assms(1)
  proof (rule armed_frame)
    show "timers (fst (flush (w', h'))) = timers w" using f(1) assms(2) by simp
    show "at_position1 (snd (flush (w', h')))" by (rule f(5))
    show "\<not> hasStartedReading (snd (flush (w', h')))" by (rule f(6))
    show "settled (snd (flush (w', h')))" by (rule flush_is_settled)
    show "timerInterval (snd (flush (w', h'))) = timerInterval h" using f(4) assms(6) by simp
    show "autoSkipTimeout (snd (flush (w', h'))) = autoSkipTimeout h" using f(3) t assms(7) by simp
  qed
  then show "armed i t sid left pending (flush (w', h'))" by simp
  show "actions_sent (fst (flush (w', h'))) = actions_sent w'" by (rule f(2))
qed

lemma armed_lookups:
  assumes "armed i t sid left pending (w, h)"
  shows "left = Some n \<Longrightarrow> map_of (timers w) i = Some (Countdown n)"
    and "pending \<Longrightarrow> map_of (timers w) t = Some (AutoSkip False (Some sid))"
    and "map_of (timers w) k = Some (Countdown m) \<Longrightarrow> k = i \<and> left = Some m"
    and "map_of (timers w) k = Some (AutoSkip s x) \<Longrightarrow> k = t \<and> pending \<and> \<not> s \<and> x = Some sid"
proof -
  have d: "distinct (map fst (timers w))"
    and c: "coordinator_timers w =
          (case left of None \<Rightarrow> [] | Some n \<Rightarrow> [(i, Countdown n)]) @
          (if pending then [(t, AutoSkip False (Some sid))] else [])"
    using assms by (simp_all add: armed_def)
  show "left = Some n \<Longrightarrow> map_of (timers w) i = Some (Countdown n)"
    using coordinator_lookup[OF d, of i "Countdown n"] c by simp
  show "pending \<Longrightarrow> map_of (timers w) t = Some (AutoSkip False (Some sid))"
    using coordinator_lookup[OF d, of t "AutoSkip False (Some sid)"] c by simp
  show "map_of (timers w) k = Some (Countdown m) \<Longrightarrow> k = i \<and> left = Some m"
    using lookup_coordinator[of w k "Countdown m"] c
    by (auto simp: coordinator_def split: option.splits if_splits)
  show "map_of (timers w) k = Some (AutoSkip s x) \<Longrightarrow> k = t \<and> pending \<and> \<not> s \<and> x = Some sid"
    using lookup_coordinator[of w k "AutoSkip s x"] c
    by (auto simp: coordinator_def split: option.splits if_splits)
qed

lemma coordinator_timers_cong:
  "timers w' = timers w \<Longrightarrow> coordinator_timers w' = coordinator_timers w"
  by (simp add: coordinator_timers_def)

lemma settled_frame:
  assumes "settled h" "queueStatus h' = queueStatus h" "wasPosition2 h' = wasPosition2 h"
    "hasStartedReading h' = hasStartedReading h" "sessionId h' = sessionId h"
    "hasJoined h' = hasJoined h" "polling_deps h' = polling_deps h"
    "position_deps h' = position_deps h"
  shows "settled h'"
  using assms by (simp add: settled_def polling_effect_deps_def position_effect_deps_def)

lemma timer_fired_settled:
  assumes "settled h"
  shows "settled (snd (timer_fired k (w, h)))"
  using assms by (rule settled_frame) (simp_all add: timer_fired_fields)

lemma timer_fired_step:
  assumes "settled h"
  shows "step (TimerFired k) (w, h) = timer_fired k (w, h)"
proof -
  obtain w1 h1 where f: "timer_fired k (w, h) = (w1, h1)" by (cases "timer_fired k (w, h)")
  have "settled h1" using timer_fired_settled[OF assms, of k w] by (simp add: f)
  then show ?thesis by (simp add: f flush_settled)
qed

lemma timer_fired_armed:
  assumes a: "armed i t sid left pending (w, h)"
  shows "armed i t sid (if k = i then seconds_left left 1 else left) (pending \<and> k \<noteq> t)
           (timer_fired k (w, h)) \<and>
         actions_sent (fst (timer_fired k (w, h))) =
           actions_sent w @ (if k = t \<and> pending then [(sid, Skip)] else [])"
proof -
  have p1: "at_position1 h" and hs: "\<not> hasStartedReading h" and se: "settled h"
    and ti: "timerInterval h = Some i" and at: "autoSkipTimeout h = Some t"
    and it: "i \<noteq> t" and sid: "sid \<noteq> []"
    and d: "distinct (map fst (timers w))"
    and c: "coordinator_timers w =
          (case left of None \<Rightarrow> [] | Some n \<Rightarrow> [(i, Countdown n)]) @
          (if pending then [(t, AutoSkip False (Some sid))] else [])"
    using a by (simp_all add: armed_def)
  have pos: "\<forall>n. left = Some n \<longrightarrow> 0 < n" using a by (rule armed_positive)
  note l = armed_lookups[OF a]
  show ?thesis
  proof (cases "map_of (timers w) k")
    case None
    have tf: "timer_fired k (w, h) = (w, h)" using None by (simp add: timer_fired_def)
    have 1: "k = i \<Longrightarrow> left = None" using l(1)[of _] None by (cases left) auto
    have 2: "k = t \<Longrightarrow> \<not> pending" using l(2) None by auto
    have "(if k = i then seconds_left left 1 else left) = left"
      using 1 by (auto simp: seconds_left_def)
    moreover have "(pending \<and> k \<noteq> t) = pending" using 2 by auto
    ultimately show ?thesis using a 2 by (auto simp: tf)
  next
    case (Some v)
    show ?thesis
    proof (cases v)
      case (Countdown n)
      then have ki: "k = i" and ln: "left = Some n" using l(3)[of k n] Some by auto
      have n0: "0 < n" using pos ln by simp
      have mem: "(i, Countdown n) \<in> set (timers w)"
        using Some Countdown ki by (auto dest: map_of_SomeD)
      define w1 where "w1 = w\<lparr>timers := AList.update i (Countdown (n - 1)) (timers w)\<rparr>"
      have c1: "coordinator_timers w1 =
                  [(i, Countdown (n - 1))] @ (if pending then [(t, AutoSkip False (Some sid))] else [])"
        using filter_update_coordinator[OF d mem, of "Countdown (n - 1)"] c ln it
        by (simp add: w1_def coordinator_timers_def coordinator_def)
      have d1: "distinct (map fst (timers w1))"
        using d update_keeps_keys[OF mem] by (simp add: w1_def)
      have kt: "k \<noteq> t" using ki it by simp
      show ?thesis
      proof (cases "n - 1 \<le> 0")
        case True
        have tf: "timer_fired k (w, h) = (clearTimer i w1, h\<lparr>autoSkipTimer := n - 1\<rparr>)"
          using Some Countdown True ki ti
          by (simp add: timer_fired_def Let_def w1_def clear_ref_def)
        have c2: "coordinator_timers (clearTimer i w1) =
                    (if pending then [(t, AutoSkip False (Some sid))] else [])"
          using it by (simp add: coordinator_clear c1)
        have sl: "seconds_left left 1 = None" using True ln by (simp add: seconds_left_def)
        have "armed i t sid None pending (clearTimer i w1, h\<lparr>autoSkipTimer := n - 1\<rparr>)"
          using p1 hs se ti at it sid clearTimer_distinct[OF d1, of i] c2
          by (simp add: armed_def at_position1_def settled_def polling_effect_deps_def
                position_effect_deps_def)
        moreover have "actions_sent (clearTimer i w1) = actions_sent w"
          by (simp add: clearTimer_def w1_def)
        ultimately show ?thesis unfolding tf using ki kt sl by simp
      next
        case False
        have tf: "timer_fired k (w, h) = (w1, h\<lparr>autoSkipTimer := n - 1\<rparr>)"
          using Some Countdown False ki by (simp add: timer_fired_def Let_def w1_def)
        have sl: "seconds_left left 1 = Some (n - 1)" using False ln by (simp add: seconds_left_def)
        have "armed i t sid (Some (n - 1)) pending (w1, h\<lparr>autoSkipTimer := n - 1\<rparr>)"
          using p1 hs se ti at it sid d1 c1 False
          by (simp add: armed_def at_position1_def settled_def polling_effect_deps_def
                position_effect_deps_def)
        moreover have "actions_sent w1 = actions_sent w" by (simp add: w1_def)
        ultimately show ?thesis unfolding tf using ki kt sl by simp
      qed
    next
      case (AutoSkip s x)
      then have kt: "k = t" and pe: "pending" and s: "\<not> s" and x: "x = Some sid"
        using l(4)[of k s x] Some by auto
      have ki: "k \<noteq> i" using kt it by simp
      have tf: "timer_fired k (w, h) =
                  ((clearTimer t w)\<lparr>actions_sent := actions_sent w @ [(sid, Skip)]\<rparr>, h)"
        using Some AutoSkip kt s x sid by (simp add: timer_fired_def)
      have "coordinator_timers ((clearTimer t w)\<lparr>actions_sent := actions_sent w @ [(sid, Skip)]\<rparr>) =
              coordinator_timers (clearTimer t w)"
        by (rule coordinator_timers_cong) simp
      also have "\<dots> = filter (\<lambda>kt. fst kt \<noteq> t) (coordinator_timers w)"
        by (rule coordinator_clear)
      also have "\<dots> = (case left of None \<Rightarrow> [] | Some n \<Rightarrow> [(i, Countdown n)])"
        unfolding c using it pe by (cases left) simp_all
      finally have c2: "coordinator_timers ((clearTimer t w)\<lparr>actions_sent := actions_sent w @ [(sid, Skip)]\<rparr>) =
                  (case left of None \<Rightarrow> [] | Some n \<Rightarrow> [(i, Countdown n)])" .
      have d2: "distinct (map fst (timers ((clearTimer t w)\<lparr>actions_sent := actions_sent w @ [(sid, Skip)]\<rparr>)))"
        using clearTimer_distinct[OF d, of t] by simp
      have "armed i t sid left False
              ((clearTimer t w)\<lparr>actions_sent := actions_sent w @ [(sid, Skip)]\<rparr>, h)"
        using p1 hs se ti at it sid d2 c2 pos by (cases left) (simp_all add: armed_def)
      then show ?thesis unfolding tf using kt ki pe by simp
    next
      case SignalPoll
      have tf: "timer_fired k (w, h) = (w\<lparr>fetched := fetched w @ [''/webrtc/signals'']\<rparr>, h)"
        using Some SignalPoll by (simp add: timer_fired_def)
      have 1: "k = i \<Longrightarrow> left = None" using l(1) Some SignalPoll by (cases left) auto
      have 2: "k = t \<Longrightarrow> \<not> pending" using l(2) Some SignalPoll by auto
      have e1: "(if k = i then seconds_left left 1 else left) = left"
        using 1 by (auto simp: seconds_left_def)
      have e2: "(pending \<and> k \<noteq> t) = pending" using 2 by auto
      have "armed i t sid left pending (w\<lparr>fetched := fetched w @ [''/webrtc/signals'']\<rparr>, h)"
        using a by (rule armed_frame) (simp_all add: p1 hs se)
      then show ?thesis using 2 by (auto simp: tf e1 e2)
    next
      case QueuePoll
      have tf: "timer_fired k (w, h) = (w\<lparr>fetched := fetched w @ [''/queue/status'']\<rparr>, h)"
        using Some QueuePoll by (simp add: timer_fired_def)
      have 1: "k = i \<Longrightarrow> left = None" using l(1) Some QueuePoll by (cases left) auto
      have 2: "k = t \<Longrightarrow> \<not> pending" using l(2) Some QueuePoll by auto
      have e1: "(if k = i then seconds_left left 1 else left) = left"
        using 1 by (auto simp: seconds_left_def)
      have e2: "(pending \<and> k \<noteq> t) = pending" using 2 by auto
      have "armed i t sid left pending (w\<lparr>fetched := fetched w @ [''/queue/status'']\<rparr>, h)"
        using a by (rule armed_frame) (simp_all add: p1 hs se)
      then show ?thesis using 2 by (auto simp: tf e1 e2)
    next
      case Position2Countdown
      have tf: "timer_fired k (w, h) = (w, h)"
        using Some Position2Countdown by (simp add: timer_fired_def)
      have 1: "k = i \<Longrightarrow> left = None" using l(1) Some Position2Countdown by (cases left) auto
      have 2: "k = t \<Longrightarrow> \<not> pending" using l(2) Some Position2Countdown by auto
      have e1: "(if k = i then seconds_left left 1 else left) = left"
        using 1 by (auto simp: seconds_left_def)
      have e2: "(pending \<and> k \<noteq> t) = pending" using 2 by auto
      show ?thesis using a 2 by (auto simp: tf e1 e2)
    next
      case (Position2Timeout y)
      have tf: "timer_fired k (w, h) = (w, h)"
        using Some Position2Timeout by (simp add: timer_fired_def)
      have 1: "k = i \<Longrightarrow> left = None" using l(1) Some Position2Timeout by (cases left) auto
      have 2: "k = t \<Longrightarrow> \<not> pending" using l(2) Some Position2Timeout by auto
      have e1: "(if k = i then seconds_left left 1 else left) = left"
        using 1 by (auto simp: seconds_left_def)
      have e2: "(pending \<and> k \<noteq> t) = pending" using 2 by auto
      show ?thesis using a 2 by (auto simp: tf e1 e2)
    qed
  qed
qed

lemma step_armed:
  assumes a: "armed i t sid left pending st" and q: "quiet ev"
  shows "armed i t sid (if ev = TimerFired i then seconds_left left 1 else left)
           (pending \<and> ev \<noteq> TimerFired t) (step ev st) \<and>
         actions_sent (fst (step ev st)) =
           actions_sent (fst st) @ (if ev = TimerFired t \<and> pending then [(sid, Skip)] else [])"
proof -
  obtain w h where st: "st = (w, h)" by (cases st)
  have a': "armed i t sid left pending (w, h)" using a by (simp add: st)
  have p1: "at_position1 h" and hs: "\<not> hasStartedReading h" and se: "settled h"
    and ti: "timerInterval h = Some i" and at: "autoSkipTimeout h = Some t"
    using a' by (simp_all add: armed_def)
  have pd: "polling_deps h = Some (polling_effect_deps h)" using se by (simp add: settled_def)
  show ?thesis
  proof (cases ev)
    case (StatusResponse r)
    show ?thesis
    proof (cases r)
      case NetworkError
      then show ?thesis using a' se
        by (simp add: StatusResponse st fetchQueueStatus_response_def flush_settled)
    next
      case NotOk
      then show ?thesis using q StatusResponse by simp
    next
      case (Ok x)
      then have x: "isPosition1 x" using q StatusResponse by simp
      have "armed i t sid left pending (flush (w, h\<lparr>queueStatus := Some x\<rparr>))"
        and "actions_sent (fst (flush (w, h\<lparr>queueStatus := Some x\<rparr>))) = actions_sent w"
        using armed_flush[OF a', of w "h\<lparr>queueStatus := Some x\<rparr>"] x hs pd
        by (simp_all add: at_position1_def polling_effect_deps_def)
      then show ?thesis
        by (simp add: StatusResponse Ok st fetchQueueStatus_response_def)
    qed
  next
    case (ActionClick x)
    then show ?thesis using q by simp
  next
    case (ActionResponse x y)
    then show ?thesis using q by simp
  next
    case MuteClick
    obtain w1 h1 where f: "HomePage_toggleMute (w, h) = (w1, h1)"
      by (cases "HomePage_toggleMute (w, h)")
    have w1: "w1 = w" and h1: "h1 = h \<or> (\<exists>am m. h1 = h\<lparr>audioManager := Some am, isMuted := m\<rparr>)"
      using f by (auto simp: HomePage_toggleMute_def split: option.splits prod.splits)
    have "armed i t sid left pending (flush (w1, h1))"
      and "actions_sent (fst (flush (w1, h1))) = actions_sent w1"
      using armed_flush[OF a', of w1 h1] w1 h1 p1 hs pd
      by (auto simp: at_position1_def polling_effect_deps_def)
    then show ?thesis by (simp add: MuteClick st f w1)
  next
    case (TimerFired k)
    have "step (TimerFired k) (w, h) = timer_fired k (w, h)" using se by (rule timer_fired_step)
    then show ?thesis using timer_fired_armed[OF a', of k] by (simp add: TimerFired st)
  next
    case (AutoSkipResponse r)
    obtain w1 h1 where f: "autoSkip_response r (w, h) = (w1, h1)"
      by (cases "autoSkip_response r (w, h)")
    have w1: "timers w1 = timers w \<and> actions_sent w1 = actions_sent w"
      and h1: "h1 = h \<or> h1 = h\<lparr>isExpanded := False\<rparr>"
      using f by (cases r; auto simp: autoSkip_response_def fetchQueueStatus_request_def
          showToast_def split: if_splits)+
    have "armed i t sid left pending (flush (w1, h1))"
      and "actions_sent (fst (flush (w1, h1))) = actions_sent w1"
      using armed_flush[OF a', of w1 h1] w1 h1 p1 hs pd
      by (auto simp: at_position1_def polling_effect_deps_def)
    then show ?thesis using w1 by (simp add: AutoSkipResponse st f)
  qed
qed

lemma run_armed:
  assumes "armed i t sid left pending st" and "\<forall>ev \<in> set evs. quiet ev"
  shows "armed i t sid (seconds_left left (count_list evs (TimerFired i)))
           (pending \<and> TimerFired t \<notin> set evs) (run evs st) \<and>
         actions_sent (fst (run evs st)) =
           actions_sent (fst st) @ (if pending \<and> TimerFired t \<in> set evs then [(sid, Skip)] else [])"
  using assms
proof (induction evs arbitrary: st left pending)
  case Nil
  have "\<forall>n. left = Some n \<longrightarrow> 0 < n" using Nil.prems(1) by (rule armed_positive)
  then show ?case using Nil by simp
next
  case (Cons ev evs)
  let ?l = "if ev = TimerFired i then seconds_left left 1 else left"
  let ?p = "pending \<and> ev \<noteq> TimerFired t"
  have q: "quiet ev" and qs: "\<forall>ev \<in> set evs. quiet ev" using Cons.prems(2) by simp_all
  have s: "armed i t sid ?l ?p (step ev st)"
    and sa: "actions_sent (fst (step ev st)) =
           actions_sent (fst st) @ (if ev = TimerFired t \<and> pending then [(sid, Skip)] else [])"
    using step_armed[OF Cons.prems(1) q] by simp_all
  have pos: "\<forall>n. left = Some n \<longrightarrow> 0 < n" using Cons.prems(1) by (rule armed_positive)
  have r: "armed i t sid (seconds_left ?l (count_list evs (TimerFired i)))
           (?p \<and> TimerFired t \<notin> set evs) (run evs (step ev st))"
    and ra: "actions_sent (fst (run evs (step ev st))) =
           actions_sent (fst (step ev st)) @
             (if ?p \<and> TimerFired t \<in> set evs then [(sid, Skip)] else [])"
    using Cons.IH[OF s qs] by simp_all
  have l: "seconds_left ?l (count_list evs (TimerFired i)) =
           seconds_left left (count_list (ev # evs) (TimerFired i))"
    using pos by (simp add: seconds_left_add)
  have p: "(?p \<and> TimerFired t \<notin> set evs) = (pending \<and> TimerFired t \<notin> set (ev # evs))"
    by auto
  have "armed i t sid (seconds_left left (count_list (ev # evs) (TimerFired i)))
           (pending \<and> TimerFired t \<notin> set (ev # evs)) (run (ev # evs) st)"
    using r unfolding l p by simp
  moreover have "actions_sent (fst (run (ev # evs) st)) =
           actions_sent (fst st) @
             (if pending \<and> TimerFired t \<in> set (ev # evs) then [(sid, Skip)] else [])"
    using ra sa by auto
  ultimately show ?case by blast
qed

lemma coordinator_clear_ref_subset:
  "set (coordinator_timers (clear_ref r w)) \<subseteq> set (coordinator_timers w)"
  by (auto simp: clear_ref_def coordinator_clear split: option.splits)

lemma polling_effect_coordinator:
  "set (coordinator_timers (fst (polling_effect (w, h)))) \<subseteq> set (coordinator_timers w)"
proof (cases "truthy (sessionId h) \<and> hasJoined h")
  case True
  have "coordinator_timers (fst (polling_effect (w, h))) =
        coordinator_timers (clear_ref (pollingInterval h) w)"
    using True
    by (simp add: polling_effect_def startPolling_def setTimer_def split_beta
          coordinator_timers_def coordinator_def)
  then show ?thesis using coordinator_clear_ref_subset by simp
next
  case False
  then show ?thesis by (auto simp: polling_effect_def)
qed

lemma position_effect_away:
  assumes "\<not> at_position1 h"
  shows "fst (position_effect (w, h)) = clear_ref (timerInterval h) (clear_ref (autoSkipTimeout h) w)"
  using assms by (auto simp: position_effect_def Let_def split_beta split: option.splits)

lemma render_away:
  assumes "\<not> at_position1 h"
  shows "set (coordinator_timers (fst (render (w, h)))) \<subseteq> set (coordinator_timers w)"
proof -
  define st1 where "st1 = (if polling_deps h = Some (polling_effect_deps h) then (w, h)
               else polling_effect (w, h\<lparr>polling_deps := Some (polling_effect_deps h)\<rparr>))"
  obtain w1 h1 where s1: "st1 = (w1, h1)" by (cases st1)
  have w1: "set (coordinator_timers w1) \<subseteq> set (coordinator_timers w)"
  proof (cases "polling_deps h = Some (polling_effect_deps h)")
    case True
    then show ?thesis using s1 by (simp add: st1_def)
  next
    case False
    then have "w1 = fst (polling_effect (w, h\<lparr>polling_deps := Some (polling_effect_deps h)\<rparr>))"
      using s1 by (simp add: st1_def)
    then show ?thesis using polling_effect_coordinator by simp
  qed
  have p1: "\<not> at_position1 h1"
  proof (cases "polling_deps h = Some (polling_effect_deps h)")
    case True
    then show ?thesis using s1 assms by (simp add: st1_def)
  next
    case False
    then have "h1 = snd (polling_effect (w, h\<lparr>polling_deps := Some (polling_effect_deps h)\<rparr>))"
      using s1 by (simp add: st1_def)
    then show ?thesis using assms by simp
  qed
  have r: "render (w, h) =
     (if position_deps h1 = Some (position_effect_deps h) then (w1, h1)
      else position_effect (w1, h1\<lparr>position_deps := Some (position_effect_deps h)\<rparr>))"
    using s1 by (simp add: render_def st1_def[symmetric])
  show ?thesis
  proof (cases "position_deps h1 = Some (position_effect_deps h)")
    case True
    then show ?thesis using r w1 by simp
  next
    case False
    have "fst (render (w, h)) =
            clear_ref (timerInterval (h1\<lparr>position_deps := Some (position_effect_deps h)\<rparr>))
              (clear_ref (autoSkipTimeout (h1\<lparr>position_deps := Some (position_effect_deps h)\<rparr>)) w1)"
      using False r p1 position_effect_away[of "h1\<lparr>position_deps := Some (position_effect_deps h)\<rparr>" w1]
      by simp
    then have "set (coordinator_timers (fst (render (w, h)))) \<subseteq> set (coordinator_timers w1)"
      using coordinator_clear_ref_subset subset_trans by metis
    then show ?thesis using w1 by blast
  qed
qed

lemma render_leaving:
  assumes "\<not> at_position1 h" "polling_deps h = Some (polling_effect_deps h)"
    "position_deps h \<noteq> Some (position_effect_deps h)"
  shows "fst (render (w, h)) = clear_ref (timerInterval h) (clear_ref (autoSkipTimeout h) w)"
  using assms position_effect_away[of "h\<lparr>position_deps := Some (position_effect_deps h)\<rparr>" w]
  by (simp add: render_def)

lemma leave_clears:
  assumes a: "armed i t sid left pending (w, h)" and q: "\<not> isPosition1 q"
  shows "coordinator_timers (fst (step (StatusResponse (Ok q)) (w, h))) = []"
proof -
  have p1: "at_position1 h" and se: "settled h"
    and ti: "timerInterval h = Some i" and at: "autoSkipTimeout h = Some t"
    and c: "coordinator_timers w =
          (case left of None \<Rightarrow> [] | Some n \<Rightarrow> [(i, Countdown n)]) @
          (if pending then [(t, AutoSkip False (Some sid))] else [])"
    using a by (simp_all add: armed_def)
  define h1 where "h1 = h\<lparr>queueStatus := Some q\<rparr>"
  have n1: "\<not> at_position1 h1" using q by (simp add: h1_def at_position1_def)
  have pd: "polling_deps h1 = Some (polling_effect_deps h1)"
    using se by (simp add: h1_def settled_def polling_effect_deps_def)
  have "position_deps h = Some (position_effect_deps h)" using se by (simp add: settled_def)
  moreover have "fst (position_effect_deps h) = Some True"
    using p1 by (auto simp: position_effect_deps_def at_position1_def split: option.splits)
  moreover have "fst (position_effect_deps h1) = Some False"
    using q by (simp add: position_effect_deps_def h1_def)
  ultimately have du: "position_deps h1 \<noteq> Some (position_effect_deps h1)"
    by (auto simp: h1_def)
  obtain w2 h2 where r: "render (w, h1) = (w2, h2)" by (cases "render (w, h1)")
  have "w2 = clear_ref (timerInterval h1) (clear_ref (autoSkipTimeout h1) w)"
    using render_leaving[OF n1 pd du, of w] by (simp add: r)
  then have w2: "w2 = clearTimer i (clearTimer t w)"
    using ti at by (simp add: h1_def clear_ref_def)
  have "coordinator_timers w2 =
          filter (\<lambda>kt. fst kt \<noteq> i) (filter (\<lambda>kt. fst kt \<noteq> t) (coordinator_timers w))"
    by (simp add: w2 coordinator_clear)
  then have e: "coordinator_timers w2 = []"
    unfolding c by (cases left) simp_all
  have "h2 = snd (render (w, h1))" by (simp add: r)
  then have n2: "\<not> at_position1 h2" using n1 by simp
  have "set (coordinator_timers (fst (render (w2, h2)))) \<subseteq> set (coordinator_timers w2)"
    using n2 by (rule render_away)
  then have "coordinator_timers (fst (render (w2, h2))) = []" using e by simp
  then show ?thesis
    by (simp add: fetchQueueStatus_response_def h1_def[symmetric] flush_def r)
qed

text \<open>
  The first snapshot at position 1 of a participant who has not started, whose timeout
  ref is null, arms the timer with ten seconds.
\<close>

lemma position_effect_arming:
  assumes "at_position1 h" "\<not> hasStartedReading h" "autoSkipTimeout h = None"
  shows "timers (fst (position_effect (w, h))) =
           timers (clear_ref (timerInterval h) w) @
           [(next_handle w, Countdown 10), (Suc (next_handle w), AutoSkip False (sessionId h))]"
    and "autoSkipTimeout (snd (position_effect (w, h))) = Some (Suc (next_handle w))"
    and "timerInterval (snd (position_effect (w, h))) = Some (next_handle w)"
  using assms
  by (simp_all add: position_effect_def Let_def split_beta startAutoSkipTimer_def setTimer_def
        clear_ref_def notify_def clearTimer_def split: option.splits)

lemma arrival_arms:
  assumes se: "settled h" and away: "\<not> at_position1 h" and hs: "\<not> hasStartedReading h"
    and ref: "autoSkipTimeout h = None" and sid: "sessionId h = Some sid" "sid \<noteq> []"
    and none: "coordinator_timers w = []" and d: "distinct (map fst (timers w))"
    and fresh: "\<forall>k \<in> fst ` set (timers w). k < next_handle w"
    and q: "isPosition1 q"
  shows "armed (next_handle w) (Suc (next_handle w)) sid (Some 10) True
           (step (StatusResponse (Ok q)) (w, h))"
proof -
  define h1 where "h1 = h\<lparr>queueStatus := Some q\<rparr>"
  define h1' where "h1' = h1\<lparr>position_deps := Some (position_effect_deps h1)\<rparr>"
  have p1: "at_position1 h1'" using q by (simp add: h1'_def h1_def at_position1_def)
  have pd: "polling_deps h1 = Some (polling_effect_deps h1)"
    using se by (simp add: h1_def settled_def polling_effect_deps_def)
  have "position_deps h = Some (position_effect_deps h)" using se by (simp add: settled_def)
  moreover have "fst (position_effect_deps h) \<noteq> Some True"
    using away by (auto simp: position_effect_deps_def at_position1_def split: option.splits)
  moreover have "fst (position_effect_deps h1) = Some True"
    using q by (simp add: position_effect_deps_def h1_def)
  ultimately have du: "position_deps h1 \<noteq> Some (position_effect_deps h1)"
    by (auto simp: h1_def)
  have r: "render (w, h1) = position_effect (w, h1')"
    using pd du by (simp add: render_def h1'_def)
  obtain w2 h2 where e: "position_effect (w, h1') = (w2, h2)" by (cases "position_effect (w, h1')")
  have hs1: "\<not> hasStartedReading h1'" and ref1: "autoSkipTimeout h1' = None"
    and sid1: "sessionId h1' = Some sid" and ti1: "timerInterval h1' = timerInterval h"
    using hs ref sid by (simp_all add: h1'_def h1_def)
  note pe = position_effect_arming[OF p1 hs1 ref1, of w]
  have t2: "timers w2 = timers (clear_ref (timerInterval h) w) @
           [(next_handle w, Countdown 10), (Suc (next_handle w), AutoSkip False (Some sid))]"
    and a2: "autoSkipTimeout h2 = Some (Suc (next_handle w))"
    and i2: "timerInterval h2 = Some (next_handle w)"
    using pe by (simp_all add: e sid1 ti1)
  have h2: "h2 = snd (position_effect (w, h1'))" by (simp add: e)
  have p2: "at_position1 h2" and hs2: "\<not> hasStartedReading h2"
    and pd2: "polling_deps h2 = Some (polling_effect_deps h2)"
    unfolding h2 using p1 hs1 pd
    by (simp_all add: position_effect_fields at_position1_def polling_effect_deps_def h1'_def)
  note fw = render_waiting[OF p2 hs2 a2 pd2, of w2]
  obtain w3 h3 where r2: "render (w2, h2) = (w3, h3)" by (cases "render (w2, h2)")
  have w3: "timers w3 = timers w2" and a3: "autoSkipTimeout h3 = Some (Suc (next_handle w))"
    and i3: "timerInterval h3 = Some (next_handle w)"
    using fw i2 by (simp_all add: r2)
  have h3: "h3 = snd (render (w2, h2))" by (simp add: r2)
  have p3: "at_position1 h3" and hs3: "\<not> hasStartedReading h3"
    unfolding h3 using p2 hs2 by (simp_all add: render_fields)
  have st: "step (StatusResponse (Ok q)) (w, h) = (w3, h3)"
    by (simp add: fetchQueueStatus_response_def h1_def[symmetric] flush_def r e r2)
  have se3: "settled h3"
    using flush_is_settled[of "(w, h1)"] by (simp add: flush_def r e r2)
  have sub: "set (timers (clear_ref (timerInterval h) w)) \<subseteq> set (timers w)"
    by (rule clear_ref_timers)
  have d0: "distinct (map fst (timers (clear_ref (timerInterval h) w)))"
    using d by (auto simp: clear_ref_def clearTimer_distinct split: option.splits)
  have fr: "\<forall>k \<in> fst ` set (timers (clear_ref (timerInterval h) w)). k < next_handle w"
    using fresh sub by auto
  have d3: "distinct (map fst (timers w3))"
    using d0 fr by (auto simp: w3 t2)
  have "set (coordinator_timers (clear_ref (timerInterval h) w)) \<subseteq> set (coordinator_timers w)"
    by (rule coordinator_clear_ref_subset)
  then have "set (coordinator_timers (clear_ref (timerInterval h) w)) = {}"
    using none by simp
  then have c0: "filter coordinator (timers (clear_ref (timerInterval h) w)) = []"
    by (simp add: coordinator_timers_def del: set_filter)
  have c3: "coordinator_timers w3 =
          [(next_handle w, Countdown 10), (Suc (next_handle w), AutoSkip False (Some sid))]"
    by (simp add: coordinator_timers_def w3 t2 c0 coordinator_def)
  show ?thesis
    unfolding st using p3 hs3 se3 i3 a3 sid(2) d3 c3 by (simp add: armed_def)
qed

text \<open>
  C2. From a state with the auto-skip timer armed, through any sequence of events in
  which the participant takes no action and stays at position 1: the \<open>skip\<close> request
  is sent exactly when the timeout fires, once, and never again; the countdown goes
  down with its ticks and clears itself at zero. So once the timeout has fired and the
  countdown has had its ticks, no timer of the coordinator is live; and the first
  snapshot without position 1 clears whatever is left of them.
\<close>

theorem auto_skip_exactly_once:
  assumes "armed i t sid left True st" and "\<forall>ev \<in> set evs. quiet ev"
  shows "actions_sent (fst (run evs st)) =
           actions_sent (fst st) @ (if TimerFired t \<in> set evs then [(sid, Skip)] else []) \<and>
         coordinator_timers (fst (run evs st)) =
           (case seconds_left left (count_list evs (TimerFired i)) of
              None \<Rightarrow> [] | Some n \<Rightarrow> [(i, Countdown n)]) @
           (if TimerFired t \<in> set evs then [] else [(t, AutoSkip False (Some sid))]) \<and>
         (TimerFired t \<in> set evs \<and>
          (\<forall>n. left = Some n \<longrightarrow> n \<le> int (count_list evs (TimerFired i))) \<longrightarrow>
            coordinator_timers (fst (run evs st)) = []) \<and>
         (\<forall>q. \<not> isPosition1 q \<longrightarrow>
            coordinator_timers (fst (step (StatusResponse (Ok q)) (run evs st))) = [])"
proof -
  obtain w h where r: "run evs st = (w, h)" by (cases "run evs st")
  have a: "armed i t sid (seconds_left left (count_list evs (TimerFired i)))
             (TimerFired t \<notin> set evs) (w, h)"
    and s: "actions_sent w =
           actions_sent (fst st) @ (if TimerFired t \<in> set evs then [(sid, Skip)] else [])"
    using run_armed[OF assms] by (simp_all add: r)
  have c: "coordinator_timers w =
           (case seconds_left left (count_list evs (TimerFired i)) of
              None \<Rightarrow> [] | Some n \<Rightarrow> [(i, Countdown n)]) @
           (if TimerFired t \<in> set evs then [] else [(t, AutoSkip False (Some sid))])"
    using a by (simp add: armed_def)
  have d: "TimerFired t \<in> set evs \<and>
          (\<forall>n. left = Some n \<longrightarrow> n \<le> int (count_list evs (TimerFired i))) \<longrightarrow>
            coordinator_timers w = []"
    unfolding c by (auto simp: seconds_left_def split: option.splits)
  have l: "\<forall>q. \<not> isPosition1 q \<longrightarrow>
            coordinator_timers (fst (step (StatusResponse (Ok q)) (w, h))) = []"
    using leave_clears[OF a] by blast
  show ?thesis unfolding r using s c d l by simp
qed

theorem auto_skip_exactly_once_witness:
  "armed 3 4 ''s1'' (Some 10) True idle \<and> list_all quiet patience \<and>
   TimerFired 4 \<in> set patience \<and> 10 \<le> int (count_list patience (TimerFired 3)) \<and>
   actions_sent (fst idle) = [] \<and>
   actions_sent (fst (run patience idle)) = [(''s1'', Skip)] \<and>
   coordinator_timers (fst (run patience idle)) = [] \<and>
   \<not> isPosition1 (snapshot 3) \<and>
   coordinator_timers (fst (step (StatusResponse (Ok (snapshot 3))) idle)) = []"
proof -
  have a: "armed 3 4 ''s1'' (Some 10) True idle" by code_simp
  have q: "\<forall>ev \<in> set patience. quiet ev" by code_simp
  have e: "TimerFired 4 \<in> set patience \<and> 10 \<le> int (count_list patience (TimerFired 3)) \<and>
     actions_sent (fst idle) = [] \<and> \<not> isPosition1 (snapshot 3)" by code_simp
  have n: "\<forall>ev \<in> set ([] :: event list). quiet ev" by simp
  note t = auto_skip_exactly_once [OF a q]
  note u = auto_skip_exactly_once [OF a n]
  have c1: "actions_sent (fst (run patience idle)) = [(''s1'', Skip)]"
    using t [THEN conjunct1] e by simp
  have "TimerFired 4 \<in> set patience \<and>
          (\<forall>n. Some (10::int) = Some n \<longrightarrow> n \<le> int (count_list patience (TimerFired 3)))"
    using e by simp
  then have c2: "coordinator_timers (fst (run patience idle)) = []"
    using t [THEN conjunct2, THEN conjunct2, THEN conjunct1] by blast
  have c3: "coordinator_timers (fst (step (StatusResponse (Ok (snapshot 3))) idle)) = []"
    using u [THEN conjunct2, THEN conjunct2, THEN conjunct2] e by simp
  have q': "list_all quiet patience" using q by (simp add: list_all_iff)
  show ?thesis using a q' e c1 c2 c3 by blast
qed

section \<open>The get-ready countdown\<close>

text \<open>
  A participant waiting at position 2 is in a state that further snapshots of position 2,
  timers that fire and the answer to the automatic \<open>skip\<close> all preserve, and in which
  none of them creates a timer.
\<close>

lemma clearPosition2Timer_world:
  "next_handle (fst (clearPosition2Timer (w, h))) = next_handle w"
  by (simp add: clearPosition2Timer_def clear_ref_fields)

lemma clearPosition2Timer_state:
  "snd (clearPosition2Timer (w, h)) =
     h\<lparr>position2TimerInterval := None, position2TimeoutRef := None,
       position2Timer := POSITION_2_TIMER_DURATION, isPosition2TimerActive := False\<rparr>"
  by (simp add: clearPosition2Timer_def)

lemma settled_render_p2: "settled_p2 h \<Longrightarrow> render_p2 (w, h) = (w, h)"
  by (simp add: render_p2_def settled_p2_def)

lemma settled_flush_p2: "settled_p2 h \<Longrightarrow> flush_p2 (w, h) = (w, h)"
  by (simp add: flush_p2_def settled_render_p2)

lemma waiting_snapshot:
  assumes "waiting_at_2 h" and "isPosition2 q" and "\<not> isPosition1 q"
  shows "step_p2 (Snapshot q) (w, h) = (w, h\<lparr>home2.queueStatus := Some q\<rparr>) \<and>
         waiting_at_2 (h\<lparr>home2.queueStatus := Some q\<rparr>)"
proof -
  have b: "waiting_at_2 (h\<lparr>home2.queueStatus := Some q\<rparr>)"
    using assms
    by (auto simp add: waiting_at_2_def settled_p2_def position2_effect_deps_def
        position1_effect_deps_def split: option.splits)
  then have "step_p2 (Snapshot q) (w, h) = (w, h\<lparr>home2.queueStatus := Some q\<rparr>)"
    by (simp add: settled_flush_p2 waiting_at_2_def)
  then show ?thesis using b by simp
qed

lemma waiting_fired:
  assumes "waiting_at_2 h"
  shows "waiting_at_2 (snd (step_p2 (Fired k) (w, h))) \<and>
         next_handle (fst (step_p2 (Fired k) (w, h))) = next_handle w"
proof -
  obtain w1 h1 where e: "position2_timer_fired k (w, h) = (w1, h1)" by (cases "position2_timer_fired k (w, h)")
  have f: "next_handle w1 = next_handle w \<and> home2.queueStatus h1 = home2.queueStatus h \<and>
      home2.wasPosition2 h1 = home2.wasPosition2 h \<and> home2.sessionId h1 = home2.sessionId h \<and>
      position2_deps h1 = position2_deps h \<and> position1_deps h1 = position1_deps h"
    using e
    by (auto simp add: position2_timer_fired_def clearTimer_def
        split: option.splits timer.splits if_splits)
  then have g: "waiting_at_2 h1"
    using assms
    by (simp add: waiting_at_2_def settled_p2_def position2_effect_deps_def
        position1_effect_deps_def)
  then have "step_p2 (Fired k) (w, h) = (w1, h1)"
    using e by (simp add: settled_flush_p2 waiting_at_2_def)
  then show ?thesis using f g by simp
qed

lemma waiting_skip_response:
  assumes "waiting_at_2 h"
  shows "waiting_at_2 (snd (step_p2 (SkipResponse r) (w, h))) \<and>
         next_handle (fst (step_p2 (SkipResponse r) (w, h))) = next_handle w"
proof -
  obtain w1 h1 where e: "position2_skip_response r (w, h) = (w1, h1)"
    by (cases "position2_skip_response r (w, h)")
  have f: "next_handle w1 = next_handle w \<and> home2.queueStatus h1 = home2.queueStatus h \<and>
      home2.wasPosition2 h1 = home2.wasPosition2 h \<and> home2.sessionId h1 = home2.sessionId h \<and>
      position2_deps h1 = position2_deps h \<and> position1_deps h1 = position1_deps h"
    using e
    by (cases r)
      (auto simp add: position2_skip_response_def clearPosition2Timer_def clear_ref_fields
        showToast_def)
  then have g: "waiting_at_2 h1"
    using assms
    by (simp add: waiting_at_2_def settled_p2_def position2_effect_deps_def
        position1_effect_deps_def)
  then have "step_p2 (SkipResponse r) (w, h) = (w1, h1)"
    using e by (simp add: settled_flush_p2 waiting_at_2_def)
  then show ?thesis using f g by simp
qed

lemma waiting_step:
  assumes "waiting_at_2 h" and "is_waiting ev"
  shows "waiting_at_2 (snd (step_p2 ev (w, h))) \<and>
         next_handle (fst (step_p2 ev (w, h))) = next_handle w"
proof (cases ev)
  case (Snapshot q)
  then show ?thesis using assms waiting_snapshot [of h q w] by simp
next
  case (Fired k)
  then show ?thesis using assms waiting_fired [of h k w] by simp
next
  case (SkipResponse r)
  then show ?thesis using assms waiting_skip_response [of h r w] by simp
qed

lemma waiting_run:
  "waiting_at_2 (snd st) \<Longrightarrow> \<forall>ev \<in> set evs. is_waiting ev \<Longrightarrow>
   waiting_at_2 (snd (run_p2 evs st)) \<and> next_handle (fst (run_p2 evs st)) = next_handle (fst st)"
proof (induction evs arbitrary: st)
  case Nil
  then show ?case by simp
next
  case (Cons ev evs)
  have s: "waiting_at_2 (snd (step_p2 ev st)) \<and>
           next_handle (fst (step_p2 ev st)) = next_handle (fst st)"
    using waiting_step [of "snd st" ev "fst st"] Cons.prems by simp
  have "waiting_at_2 (snd (run_p2 evs (step_p2 ev st))) \<and>
        next_handle (fst (run_p2 evs (step_p2 ev st))) = next_handle (fst (step_p2 ev st))"
    using Cons.IH [of "step_p2 ev st"] s Cons.prems by simp
  then show ?case using s by simp
qed

lemma waiting_snapshots:
  "waiting_at_2 h \<Longrightarrow> home2.queueStatus h = Some q \<Longrightarrow>
   \<forall>q' \<in> set qs. isPosition2 q' \<and> \<not> isPosition1 q' \<Longrightarrow>
   run_p2 (map Snapshot qs) (w, h) = (w, h\<lparr>home2.queueStatus := Some (last (q # qs))\<rparr>)"
proof (induction qs arbitrary: h q)
  case Nil
  then show ?case by simp
next
  case (Cons a qs)
  have s: "step_p2 (Snapshot a) (w, h) = (w, h\<lparr>home2.queueStatus := Some a\<rparr>)"
    and k: "waiting_at_2 (h\<lparr>home2.queueStatus := Some a\<rparr>)"
    using waiting_snapshot [of h a w] Cons.prems by simp_all
  have "run_p2 (map Snapshot qs) (w, h\<lparr>home2.queueStatus := Some a\<rparr>) =
        (w, h\<lparr>home2.queueStatus := Some a, home2.queueStatus := Some (last (a # qs))\<rparr>)"
    using Cons.IH [of "h\<lparr>home2.queueStatus := Some a\<rparr>" a] k Cons.prems by simp
  then show ?case using s by simp
qed

lemma startPosition2Timer_world:
  "fst (startPosition2Timer (w, h)) =
     (clear_ref (position2TimeoutRef h) (clear_ref (position2TimerInterval h) w))
       \<lparr>timers := timers (clear_ref (position2TimeoutRef h) (clear_ref (position2TimerInterval h) w)) @
          [(next_handle w, Position2Countdown),
           (Suc (next_handle w), Position2Timeout (home2.sessionId h))],
        next_handle := Suc (Suc (next_handle w))\<rparr>"
  by (simp add: startPosition2Timer_def clearPosition2Timer_def setTimer_def clear_ref_fields)

lemma startPosition2Timer_state:
  "snd (startPosition2Timer (w, h)) =
     h\<lparr>position2TimerInterval := Some (next_handle w),
       position2TimeoutRef := Some (Suc (next_handle w)),
       position2Timer := POSITION_2_TIMER_DURATION, isPosition2TimerActive := True\<rparr>"
  by (simp add: startPosition2Timer_def clearPosition2Timer_def setTimer_def clear_ref_fields)

lemma position1_effect_away:
  assumes "home2.queueStatus h = Some q" and "\<not> isPosition1 q"
  shows "fst (position1_effect (w, h)) = w \<and>
         home2.queueStatus (snd (position1_effect (w, h))) = home2.queueStatus h \<and>
         home2.wasPosition2 (snd (position1_effect (w, h))) = home2.wasPosition2 h \<and>
         home2.sessionId (snd (position1_effect (w, h))) = home2.sessionId h \<and>
         position2_deps (snd (position1_effect (w, h))) = position2_deps h \<and>
         position1_deps (snd (position1_effect (w, h))) = position1_deps h \<and>
         position2TimerInterval (snd (position1_effect (w, h))) = position2TimerInterval h \<and>
         position2TimeoutRef (snd (position1_effect (w, h))) = position2TimeoutRef h \<and>
         position2Timer (snd (position1_effect (w, h))) = position2Timer h \<and>
         isPosition2TimerActive (snd (position1_effect (w, h))) = isPosition2TimerActive h"
  using assms by (cases "home2.audioManager h") (simp_all add: position1_effect_def)

lemma render_entering:
  fixes h :: "'pc home2"
  assumes s: "settled_p2 h" and nw: "\<not> home2.wasPosition2 h"
    and np: "map_option isPosition2 (home2.queueStatus h) \<noteq> Some True"
    and q: "isPosition2 q" "\<not> isPosition1 q"
  shows "fst (render_p2 (w, h\<lparr>home2.queueStatus := Some q\<rparr>)) =
           fst (startPosition2Timer (w, h)) \<and>
         home2.queueStatus (snd (render_p2 (w, h\<lparr>home2.queueStatus := Some q\<rparr>))) = Some q \<and>
         home2.wasPosition2 (snd (render_p2 (w, h\<lparr>home2.queueStatus := Some q\<rparr>))) \<and>
         home2.sessionId (snd (render_p2 (w, h\<lparr>home2.queueStatus := Some q\<rparr>))) = home2.sessionId h \<and>
         position2_deps (snd (render_p2 (w, h\<lparr>home2.queueStatus := Some q\<rparr>))) =
           Some (Some True, False, home2.sessionId h) \<and>
         position1_deps (snd (render_p2 (w, h\<lparr>home2.queueStatus := Some q\<rparr>))) = Some (Some False) \<and>
         position2TimerInterval (snd (render_p2 (w, h\<lparr>home2.queueStatus := Some q\<rparr>))) =
           Some (next_handle w) \<and>
         position2TimeoutRef (snd (render_p2 (w, h\<lparr>home2.queueStatus := Some q\<rparr>))) =
           Some (Suc (next_handle w)) \<and>
         position2Timer (snd (render_p2 (w, h\<lparr>home2.queueStatus := Some q\<rparr>))) =
           POSITION_2_TIMER_DURATION \<and>
         isPosition2TimerActive (snd (render_p2 (w, h\<lparr>home2.queueStatus := Some q\<rparr>)))"
proof -
  let ?d = "(Some True, False, home2.sessionId h)"
  let ?h0 = "h\<lparr>home2.queueStatus := Some q\<rparr>"
  let ?ha = "?h0\<lparr>position2_deps := Some ?d\<rparr>"
  let ?hb = "(snd (startPosition2Timer (w, ?ha)))\<lparr>home2.wasPosition2 := True\<rparr>"
  let ?wb = "fst (startPosition2Timer (w, h))"
  have d2: "position2_effect_deps ?h0 = ?d"
    using q nw by (simp add: position2_effect_deps_def)
  have due: "position2_deps ?h0 \<noteq> Some (position2_effect_deps ?h0)"
    using s np nw d2 by (simp add: settled_p2_def position2_effect_deps_def)
  have wsame: "fst (startPosition2Timer (w, ?ha)) = ?wb"
    by (simp add: startPosition2Timer_world)
  have e2: "position2_effect (w, ?ha) = (?wb, ?hb)"
    using q nw wsame by (simp add: position2_effect_def split_beta)
  have d1: "position1_effect_deps ?h0 = Some False"
    using q by (simp add: position1_effect_deps_def)
  have r: "render_p2 (w, ?h0) =
      (if position1_deps ?hb = Some (Some False) then (?wb, ?hb)
       else position1_effect (?wb, ?hb\<lparr>position1_deps := Some (Some False)\<rparr>))"
    using due d2 d1 e2 by (simp add: render_p2_def)
  have hb: "home2.queueStatus ?hb = Some q \<and> home2.wasPosition2 ?hb \<and>
      home2.sessionId ?hb = home2.sessionId h \<and> position2_deps ?hb = Some ?d \<and>
      position2TimerInterval ?hb = Some (next_handle w) \<and>
      position2TimeoutRef ?hb = Some (Suc (next_handle w)) \<and>
      position2Timer ?hb = POSITION_2_TIMER_DURATION \<and> isPosition2TimerActive ?hb"
    by (simp add: startPosition2Timer_state)
  show ?thesis
  proof (cases "position1_deps ?hb = Some (Some False)")
    case True
    then have "render_p2 (w, ?h0) = (?wb, ?hb)" using r by simp
    then show ?thesis using True by (simp add: startPosition2Timer_state)
  next
    case False
    let ?hc = "?hb\<lparr>position1_deps := Some (Some False)\<rparr>"
    have rr: "render_p2 (w, ?h0) = position1_effect (?wb, ?hc)" using r False by simp
    have "home2.queueStatus ?hc = Some q" by (simp add: startPosition2Timer_state)
    note a = position1_effect_away [OF this q(2), of ?wb]
    show ?thesis unfolding rr using a by (simp add: startPosition2Timer_state)
  qed
qed

lemma render_entered:
  assumes "home2.queueStatus h = Some q" and "isPosition2 q" and "\<not> isPosition1 q"
    and "home2.wasPosition2 h" and "position1_deps h = Some (Some False)"
  shows "render_p2 (w, h) = (w, h\<lparr>position2_deps := Some (position2_effect_deps h)\<rparr>) \<and>
         waiting_at_2 (h\<lparr>position2_deps := Some (position2_effect_deps h)\<rparr>)"
proof -
  have d1: "position1_effect_deps h = Some False"
    using assms by (simp add: position1_effect_deps_def)
  have k: "waiting_at_2 (h\<lparr>position2_deps := Some (position2_effect_deps h)\<rparr>)"
    using assms
    by (simp add: waiting_at_2_def settled_p2_def position2_effect_deps_def
        position1_effect_deps_def)
  have e: "position2_effect (w, h\<lparr>position2_deps := Some (position2_effect_deps h)\<rparr>) =
           (w, h\<lparr>position2_deps := Some (position2_effect_deps h)\<rparr>)"
    using assms by (simp add: position2_effect_def)
  have "render_p2 (w, h) = (w, h\<lparr>position2_deps := Some (position2_effect_deps h)\<rparr>)"
  proof (cases "position2_deps h = Some (position2_effect_deps h)")
    case True
    then have "h\<lparr>position2_deps := Some (position2_effect_deps h)\<rparr> = h" by simp
    then show ?thesis using True assms d1 by (simp add: render_p2_def)
  next
    case False
    then show ?thesis using e assms d1 by (simp add: render_p2_def)
  qed
  then show ?thesis using k by simp
qed

lemma step_entering:
  fixes h :: "'pc home2"
  assumes s: "settled_p2 h" and nw: "\<not> home2.wasPosition2 h"
    and np: "map_option isPosition2 (home2.queueStatus h) \<noteq> Some True"
    and q: "isPosition2 q" "\<not> isPosition1 q"
  shows "fst (step_p2 (Snapshot q) (w, h)) = fst (startPosition2Timer (w, h)) \<and>
         waiting_at_2 (snd (step_p2 (Snapshot q) (w, h))) \<and>
         home2.queueStatus (snd (step_p2 (Snapshot q) (w, h))) = Some q \<and>
         position2TimerInterval (snd (step_p2 (Snapshot q) (w, h))) = Some (next_handle w) \<and>
         position2TimeoutRef (snd (step_p2 (Snapshot q) (w, h))) = Some (Suc (next_handle w)) \<and>
         position2Timer (snd (step_p2 (Snapshot q) (w, h))) = POSITION_2_TIMER_DURATION \<and>
         isPosition2TimerActive (snd (step_p2 (Snapshot q) (w, h)))"
proof -
  let ?h0 = "h\<lparr>home2.queueStatus := Some q\<rparr>"
  obtain w1 h1 where r1: "render_p2 (w, ?h0) = (w1, h1)" by (cases "render_p2 (w, ?h0)")
  note a = render_entering [OF s nw np q, of w, unfolded r1, simplified]
  have w1: "w1 = fst (startPosition2Timer (w, h))" using a by simp
  have "home2.queueStatus h1 = Some q" "home2.wasPosition2 h1"
    "position1_deps h1 = Some (Some False)"
    using a by simp_all
  note b = render_entered [OF this(1) q this(2) this(3), of w1]
  let ?h2 = "h1\<lparr>position2_deps := Some (position2_effect_deps h1)\<rparr>"
  have r2: "render_p2 (w1, h1) = (w1, ?h2)" and k: "waiting_at_2 ?h2" using b by simp_all
  have r3: "render_p2 (w1, ?h2) = (w1, ?h2)"
    using k by (simp add: settled_render_p2 waiting_at_2_def)
  have "step_p2 (Snapshot q) (w, h) = (w1, ?h2)"
    by (simp add: flush_p2_def r1 r2 r3)
  then show ?thesis using a k w1 by simp
qed

text \<open>
  C3. Let the component be settled, with \<open>wasPosition2\<close> false and its last snapshot, if
  any, not at position 2. When a snapshot of position 2 arrives, one countdown interval and
  one timeout are created, after the timers the two refs held have been cancelled, and
  the refs, the display and the active flag are set for them. Whatever number of further
  snapshots of position 2 follow, the state stays the one the first of them left, but for
  the stored snapshot: no timer is cancelled, restarted or added. And when timers fire or
  the automatic \<open>skip\<close> is answered in between, still no other timer is ever created.
  A snapshot of position 2 is one with \<open>isPosition2\<close> set and \<open>isPosition1\<close> not set,
  as the queue reports a single position.
\<close>

theorem position2_timer_started_once:
  fixes h :: "'pc home2"
  assumes "settled_p2 h"
    and "\<not> home2.wasPosition2 h"
    and "map_option isPosition2 (home2.queueStatus h) \<noteq> Some True"
    and "isPosition2 q" and "\<not> isPosition1 q"
    and "\<forall>q' \<in> set qs. isPosition2 q' \<and> \<not> isPosition1 q'"
    and "\<forall>ev \<in> set evs. is_waiting ev"
  shows "timers (fst (step_p2 (Snapshot q) (w, h))) =
           timers (clear_ref (position2TimeoutRef h) (clear_ref (position2TimerInterval h) w)) @
           [(next_handle w, Position2Countdown),
            (Suc (next_handle w), Position2Timeout (home2.sessionId h))] \<and>
         position2TimerInterval (snd (step_p2 (Snapshot q) (w, h))) = Some (next_handle w) \<and>
         position2TimeoutRef (snd (step_p2 (Snapshot q) (w, h))) = Some (Suc (next_handle w)) \<and>
         position2Timer (snd (step_p2 (Snapshot q) (w, h))) = POSITION_2_TIMER_DURATION \<and>
         isPosition2TimerActive (snd (step_p2 (Snapshot q) (w, h))) \<and>
         run_p2 (map Snapshot (q # qs)) (w, h) =
           (fst (step_p2 (Snapshot q) (w, h)),
            (snd (step_p2 (Snapshot q) (w, h)))\<lparr>home2.queueStatus := Some (last (q # qs))\<rparr>) \<and>
         next_handle (fst (run_p2 (Snapshot q # evs) (w, h))) = next_handle w + 2"
proof -
  let ?st = "step_p2 (Snapshot q) (w, h)"
  note a = step_entering [OF assms(1-5), of w]
  have t: "timers (fst ?st) =
           timers (clear_ref (position2TimeoutRef h) (clear_ref (position2TimerInterval h) w)) @
           [(next_handle w, Position2Countdown),
            (Suc (next_handle w), Position2Timeout (home2.sessionId h))]"
    and n: "next_handle (fst ?st) = next_handle w + 2"
    using a by (simp_all add: startPosition2Timer_world)
  have k: "waiting_at_2 (snd ?st)" and qq: "home2.queueStatus (snd ?st) = Some q"
    using a by simp_all
  have "run_p2 (map Snapshot qs) (fst ?st, snd ?st) =
        (fst ?st, (snd ?st)\<lparr>home2.queueStatus := Some (last (q # qs))\<rparr>)"
    using waiting_snapshots [OF k qq assms(6)] .
  then have r: "run_p2 (map Snapshot (q # qs)) (w, h) =
        (fst ?st, (snd ?st)\<lparr>home2.queueStatus := Some (last (q # qs))\<rparr>)"
    by simp
  have "next_handle (fst (run_p2 evs ?st)) = next_handle (fst ?st)"
    using waiting_run [OF k assms(7)] by simp
  then have m: "next_handle (fst (run_p2 (Snapshot q # evs) (w, h))) = next_handle w + 2"
    using n by simp
  show ?thesis using t a r m by simp
qed

theorem position2_timer_started_once_witness:
  "settled_p2 (snd waiting_p2) \<and> \<not> home2.wasPosition2 (snd waiting_p2) \<and>
   map_option isPosition2 (home2.queueStatus (snd waiting_p2)) \<noteq> Some True \<and>
   isPosition2 (snapshot 2) \<and> \<not> isPosition1 (snapshot 2) \<and>
   list_all (\<lambda>q'. isPosition2 q' \<and> \<not> isPosition1 q') [snapshot 2, snapshot 2] \<and>
   list_all is_waiting
     [Snapshot (snapshot 2), Fired 1, Fired 2, SkipResponse NotOk, Snapshot (snapshot 2)] \<and>
   timers (fst (step_p2 (Snapshot (snapshot 2)) waiting_p2)) =
     [(1, Position2Countdown), (2, Position2Timeout (Some ''s1''))] \<and>
   timers (fst (run_p2 (map Snapshot [snapshot 2, snapshot 2, snapshot 2]) waiting_p2)) =
     [(1, Position2Countdown), (2, Position2Timeout (Some ''s1''))] \<and>
   next_handle (fst waiting_p2) = 1 \<and>
   next_handle (fst (run_p2 [Snapshot (snapshot 2), Snapshot (snapshot 2), Fired 1, Fired 2,
      SkipResponse NotOk, Snapshot (snapshot 2)] waiting_p2)) = 3"
proof -
  have a: "settled_p2 (snd waiting_p2)" by code_simp
  have b: "\<not> home2.wasPosition2 (snd waiting_p2)" by code_simp
  have c: "map_option isPosition2 (home2.queueStatus (snd waiting_p2)) \<noteq> Some True" by code_simp
  have d: "isPosition2 (snapshot 2)" "\<not> isPosition1 (snapshot 2)" by code_simp+
  have e: "\<forall>q' \<in> set [snapshot 2, snapshot 2]. isPosition2 q' \<and> \<not> isPosition1 q'" by code_simp
  have f: "\<forall>ev \<in> set [Snapshot (snapshot 2), Fired 1, Fired 2, SkipResponse NotOk,
      Snapshot (snapshot 2)]. is_waiting ev" by code_simp
  have g: "next_handle (fst waiting_p2) = 1 \<and>
     timers (clear_ref (position2TimeoutRef (snd waiting_p2))
        (clear_ref (position2TimerInterval (snd waiting_p2)) (fst waiting_p2))) = [] \<and>
     home2.sessionId (snd waiting_p2) = Some ''s1''" by code_simp
  note t = position2_timer_started_once [OF a b c d e f, of "fst waiting_p2"]
  have c1: "timers (fst (step_p2 (Snapshot (snapshot 2)) waiting_p2)) =
     [(1, Position2Countdown), (2, Position2Timeout (Some ''s1''))]"
    using t [THEN conjunct1] g by simp
  have "run_p2 (map Snapshot [snapshot 2, snapshot 2, snapshot 2]) waiting_p2 =
     (fst (step_p2 (Snapshot (snapshot 2)) waiting_p2),
      (snd (step_p2 (Snapshot (snapshot 2)) waiting_p2))
        \<lparr>home2.queueStatus := Some (last [snapshot 2, snapshot 2, snapshot 2])\<rparr>)"
    using t [THEN conjunct2, THEN conjunct2, THEN conjunct2, THEN conjunct2, THEN conjunct2,
        THEN conjunct1] by simp
  then have c2: "timers (fst (run_p2 (map Snapshot [snapshot 2, snapshot 2, snapshot 2]) waiting_p2)) =
     [(1, Position2Countdown), (2, Position2Timeout (Some ''s1''))]"
    using c1 by simp
  have c3: "next_handle (fst (run_p2 [Snapshot (snapshot 2), Snapshot (snapshot 2), Fired 1, Fired 2,
      SkipResponse NotOk, Snapshot (snapshot 2)] waiting_p2)) = 3"
    using t [THEN conjunct2, THEN conjunct2, THEN conjunct2, THEN conjunct2, THEN conjunct2,
        THEN conjunct2] g by simp
  have e': "list_all (\<lambda>q'. isPosition2 q' \<and> \<not> isPosition1 q') [snapshot 2, snapshot 2]"
    using e by (simp add: list_all_iff)
  have f': "list_all is_waiting
     [Snapshot (snapshot 2), Fired 1, Fired 2, SkipResponse NotOk, Snapshot (snapshot 2)]"
    using f by (simp add: list_all_iff)
  show ?thesis using a b c d e' f' g c1 c2 c3 by blast
qed

end
